theory Spec2Isabelle
  imports Main "HOL-Library.AList"
begin

section \<open>Python values, dictionaries and the object store\<close>

text \<open>
  The mapper of \<^verbatim>\<open>src/mmovod/data/custom_dataset_mapper.py\<close> works on Python
  dictionaries that it copies and then mutates in place. Dictionaries are therefore
  objects of a store: a list of dictionaries, addressed by position, and a value that
  refers to a dictionary is a reference \<open>VRef a\<close>. Lists are never mutated by the
  mapper and are kept as values. Everything that belongs to the libraries the mapper
  calls (images, tensors, transforms, boxes, masks, augmentation operators) is a value
  of the type parameter \<open>'x\<close>.
\<close>

type_synonym addr = nat

datatype error =
    NotImplementedError
  | AttributeError
  | KeyError
  | IndexError
  | TypeError
  | RecursionError
  | DanglingReference
  | Failure string

text \<open>
  The instance collection (\<^verbatim>\<open>Instances\<close>): the fields the mapper reads or
  writes, one entry per instance in each of them; \<open>gt_masks\<close> is a field that the
  collection may lack.
\<close>

record 'x instances =
  gt_boxes :: "'x list"
  gt_classes :: "int list"
  gt_masks :: "'x list option"

datatype 'x val =
    VNone
  | VBool bool
  | VInt int
  | VStr string
  | VList "'x val list"
  | VRef addr
  | VInstances "'x instances"
  | VExt 'x

type_synonym 'x dict = "(string \<times> 'x val) list"

datatype 'x augmentation_list = AugmentationList "'x list"

text \<open>
  What a call leaves behind: the store, and the calls of the three collaborators the
  properties speak about, in the order in which they were made.
\<close>

datatype 'x event =
    Augmented "'x augmentation_list"
  | Remapped addr
  | Collected "'x dict list"

record 'x state =
  heap :: "'x dict list"
  trace :: "'x event list"

subsection \<open>Index and comparison of Python\<close>

text \<open>\<^verbatim>\<open>xs[i]\<close>: a negative index counts from the end, \<^verbatim>\<open>True\<close> and
  \<^verbatim>\<open>False\<close> are the integers 1 and 0, anything else is no index.\<close>

definition index_int :: "'a list \<Rightarrow> int \<Rightarrow> error + 'a" where
  "index_int xs i =
     (let n = int (length xs); j = (if i < 0 then i + n else i)
      in if 0 \<le> j \<and> j < n then Inr (xs ! nat j) else Inl IndexError)"

fun py_index :: "'a list \<Rightarrow> 'x val \<Rightarrow> error + 'a" where
  "py_index xs (VInt i) = index_int xs i"
| "py_index xs (VBool b) = index_int xs (if b then 1 else 0)"
| "py_index xs v = Inl TypeError"

text \<open>\<^verbatim>\<open>v == 0\<close> on the values modelled here.\<close>

fun eq_zero :: "'x val \<Rightarrow> bool" where
  "eq_zero (VInt i) = (i = 0)"
| "eq_zero (VBool b) = (\<not> b)"
| "eq_zero v = False"

text \<open>\<^verbatim>\<open>sorted(set(xs))\<close>.\<close>

definition sorted_set :: "int list \<Rightarrow> int list" where
  "sorted_set xs = sort (remdups xs)"

subsection \<open>\<^verbatim>\<open>copy.deepcopy\<close>\<close>

text \<open>
  The copy of a reference is a new object, made once (the memo maps the objects already
  copied to their copies, which keeps sharing and ends cycles); the new object is
  allocated empty before its items are copied, as Python does, and filled afterwards.
  The first argument is the recursion depth that is left: following a reference to an
  object not yet copied costs one level, and none left is Python's
  \<^verbatim>\<open>RecursionError\<close> (\<open>None\<close> here). A reference to no object is \<open>None\<close> too.
\<close>

type_synonym 'x cstate = "'x dict list \<times> (addr \<times> addr) list"

function deepcopy_val :: "nat \<Rightarrow> 'x val \<Rightarrow> 'x cstate \<Rightarrow> ('x val \<times> 'x cstate) option"
  and deepcopy_vals :: "nat \<Rightarrow> 'x val list \<Rightarrow> 'x cstate \<Rightarrow> ('x val list \<times> 'x cstate) option"
  and deepcopy_items :: "nat \<Rightarrow> 'x dict \<Rightarrow> 'x cstate \<Rightarrow> ('x dict \<times> 'x cstate) option"
where
  "deepcopy_val n (VList vs) st =
     (case deepcopy_vals n vs st of None \<Rightarrow> None
      | Some (ws, st') \<Rightarrow> Some (VList ws, st'))"
| "deepcopy_val n (VRef a) st =
     (case map_of (snd st) a of
        Some b \<Rightarrow> Some (VRef b, st)
      | None \<Rightarrow>
         (case n of 0 \<Rightarrow> None
          | Suc k \<Rightarrow>
             if a < length (fst st) then
               (let b = length (fst st) in
                case deepcopy_items k (fst st ! a) (fst st @ [[]], (a, b) # snd st) of
                  None \<Rightarrow> None
                | Some (items, st') \<Rightarrow> Some (VRef b, ((fst st')[b := items], snd st')))
             else None))"
| "deepcopy_val n VNone st = Some (VNone, st)"
| "deepcopy_val n (VBool b) st = Some (VBool b, st)"
| "deepcopy_val n (VInt i) st = Some (VInt i, st)"
| "deepcopy_val n (VStr s) st = Some (VStr s, st)"
| "deepcopy_val n (VInstances I) st = Some (VInstances I, st)"
| "deepcopy_val n (VExt x) st = Some (VExt x, st)"
| "deepcopy_vals n [] st = Some ([], st)"
| "deepcopy_vals n (v # vs) st =
     (case deepcopy_val n v st of None \<Rightarrow> None
      | Some (w, st') \<Rightarrow>
         (case deepcopy_vals n vs st' of None \<Rightarrow> None
          | Some (ws, st'') \<Rightarrow> Some (w # ws, st'')))"
| "deepcopy_items n [] st = Some ([], st)"
| "deepcopy_items n (kv # kvs) st =
     (case deepcopy_val n (snd kv) st of None \<Rightarrow> None
      | Some (w, st') \<Rightarrow>
         (case deepcopy_items n kvs st' of None \<Rightarrow> None
          | Some (kws, st'') \<Rightarrow> Some ((fst kv, w) # kws, st'')))"
  by pat_completeness auto
termination
  by (relation "inv_image (less_than <*lex*> less_than)
        (\<lambda>x. case x of
           Inl (n, v, _) \<Rightarrow> (n, size v)
         | Inr (Inl (n, vs, _)) \<Rightarrow> (n, size_list size vs)
         | Inr (Inr (n, kvs, _)) \<Rightarrow> (n, size_list (\<lambda>kv. size (snd kv)) kvs))") auto

section \<open>Configuration and collaborators\<close>

text \<open>
  The settings that the base class \<^verbatim>\<open>DatasetMapper\<close> keeps and that
  \<^verbatim>\<open>__call__\<close> reads.
\<close>

record 'x inherited =
  augmentations :: "'x augmentation_list"
  image_format :: string
  use_instance_mask :: bool
  use_keypoint :: bool
  instance_mask_format :: string
  keypoint_hflip_indices :: "'x option"
  proposal_topk :: "int option"
  recompute_boxes :: bool

text \<open>
  The mapper object. \<open>dataset_augs\<close> is an attribute that \<^verbatim>\<open>__init__\<close> sets only
  under \<^verbatim>\<open>use_diff_bs_size and is_train\<close>: \<open>None\<close> is the attribute not being
  there. No attribute \<^verbatim>\<open>tar_dataset\<close> is ever set, so the record has no such field.
\<close>

record 'x mapper =
  with_ann_type :: bool
  dataset_ann :: "string list"
  use_diff_bs_size :: bool
  dataset_augs :: "'x augmentation_list list option"
  is_debug :: bool
  use_tar_dataset :: bool
  is_train :: bool
  inherited :: "'x inherited"

text \<open>
  The functions of detectron2, torch and numpy that the mapper calls are parameters of
  the model. One that receives a dictionary the mapper owns and may change it in place
  returns the dictionary it leaves; one that may raise returns a sum.
  \<open>recursion_limit\<close> is the depth \<^verbatim>\<open>copy.deepcopy\<close> may reach.
\<close>

record 'x collaborators =
  recursion_limit :: nat
  dataset_mapper_init :: "bool \<Rightarrow> 'x dict \<Rightarrow> error + 'x inherited"
  read_image :: "'x val \<Rightarrow> string \<Rightarrow> error + 'x"
  check_image_size :: "'x dict \<Rightarrow> 'x \<Rightarrow> error + 'x dict"
  squeeze :: "'x \<Rightarrow> 'x"
  apply_augmentations ::
    "'x augmentation_list \<Rightarrow> 'x \<Rightarrow> 'x option \<Rightarrow> error + ('x \<times> 'x option \<times> 'x)"
  image_shape :: "'x \<Rightarrow> 'x"
  image_tensor :: "'x \<Rightarrow> 'x"
  sem_seg_tensor :: "'x \<Rightarrow> 'x"
  transform_proposals :: "'x dict \<Rightarrow> 'x \<Rightarrow> 'x \<Rightarrow> int \<Rightarrow> error + 'x dict"
  transform_instance_annotations ::
    "'x dict \<Rightarrow> 'x \<Rightarrow> 'x \<Rightarrow> 'x option \<Rightarrow> error + 'x dict"
  annotations_to_instances :: "'x dict list \<Rightarrow> 'x \<Rightarrow> string \<Rightarrow> error + 'x instances"
  mask_bounding_box :: "'x \<Rightarrow> 'x"
  filter_empty_instances :: "'x instances \<Rightarrow> 'x instances"

section \<open>Construction: \<^verbatim>\<open>CustomDatasetMapper.__init__\<close>\<close>

record 'x init_args =
  arg_is_train :: bool
  arg_with_ann_type :: bool
  arg_dataset_ann :: "string list"
  arg_use_diff_bs_size :: bool
  arg_dataset_augs :: "'x list list"
  arg_is_debug :: bool
  arg_use_tar_dataset :: bool
  arg_tarfile_path :: string
  arg_tar_index_dir :: string
  arg_kwargs :: "'x dict"

text \<open>
  Lines 37 to 46. The attributes set before the \<^verbatim>\<open>raise\<close> are lost with the
  object; \<^verbatim>\<open>super().__init__(is_train, **kwargs)\<close> is the collaborator
  \<open>dataset_mapper_init\<close>, which stores \<open>is_train\<close> and the inherited settings.
\<close>

definition init :: "'x collaborators \<Rightarrow> 'x init_args \<Rightarrow> error + 'x mapper" where
  "init E a =
     (if arg_use_tar_dataset a then Inl NotImplementedError
      else
        (case dataset_mapper_init E (arg_is_train a) (arg_kwargs a) of
           Inl e \<Rightarrow> Inl e
         | Inr b \<Rightarrow>
             Inr \<lparr> with_ann_type = arg_with_ann_type a,
                   dataset_ann = arg_dataset_ann a,
                   use_diff_bs_size = arg_use_diff_bs_size a,
                   dataset_augs =
                     (if arg_use_diff_bs_size a \<and> arg_is_train a
                      then Some (map AugmentationList (arg_dataset_augs a)) else None),
                   is_debug = arg_is_debug a,
                   use_tar_dataset = arg_use_tar_dataset a,
                   is_train = arg_is_train a,
                   inherited = b \<rparr>))"

section \<open>Programs over the store\<close>

type_synonym ('a, 'x) prog = "'x state \<Rightarrow> (error + 'a) \<times> 'x state"

definition ret :: "'a \<Rightarrow> ('a, 'x) prog" where
  "ret v s = (Inr v, s)"

definition throw :: "error \<Rightarrow> ('a, 'x) prog" where
  "throw e s = (Inl e, s)"

definition lift :: "error + 'a \<Rightarrow> ('a, 'x) prog" where
  "lift r s = (r, s)"

definition bnd :: "('a, 'x) prog \<Rightarrow> ('a \<Rightarrow> ('b, 'x) prog) \<Rightarrow> ('b, 'x) prog" where
  "bnd m f s = (case m s of (Inl e, s') \<Rightarrow> (Inl e, s') | (Inr v, s') \<Rightarrow> f v s')"

definition emit :: "'x event \<Rightarrow> (unit, 'x) prog" where
  "emit ev s = (Inr (), s\<lparr>trace := trace s @ [ev]\<rparr>)"

definition rd :: "addr \<Rightarrow> ('x dict, 'x) prog" where
  "rd a s = (if a < length (heap s) then (Inr (heap s ! a), s) else (Inl DanglingReference, s))"

definition wr :: "addr \<Rightarrow> 'x dict \<Rightarrow> (unit, 'x) prog" where
  "wr a d s = (Inr (), s\<lparr>heap := (heap s)[a := d]\<rparr>)"

text \<open>\<^verbatim>\<open>copy.deepcopy(dataset_dict)\<close>, line 85.\<close>

definition deepcopy :: "nat \<Rightarrow> addr \<Rightarrow> (addr, 'x) prog" where
  "deepcopy n r s =
     (case deepcopy_val n (VRef r) (heap s, []) of
        Some (VRef r', (h', memo)) \<Rightarrow> (Inr r', s\<lparr>heap := h'\<rparr>)
      | _ \<Rightarrow> (Inl RecursionError, s))"

section \<open>The call: \<^verbatim>\<open>CustomDatasetMapper.__call__\<close>\<close>

text \<open>
  The stages follow the source from top to bottom; \<open>r\<close> is the address of the working
  record (the copy), and every assignment to \<^verbatim>\<open>dataset_dict[...]\<close> is a write
  to the store at \<open>r\<close>.
\<close>

text \<open>
  Lines 87 to 93. Without \<^verbatim>\<open>file_name\<close> the first thing evaluated is
  \<^verbatim>\<open>self.tar_dataset\<close>, an attribute no mapper has.
\<close>

definition load_image :: "'x mapper \<Rightarrow> 'x collaborators \<Rightarrow> addr \<Rightarrow> ('x, 'x) prog" where
  "load_image M E r =
     bnd (rd r) (\<lambda>d.
       case map_of d ''file_name'' of
         Some f \<Rightarrow> lift (read_image E f (image_format (inherited M)))
       | None \<Rightarrow> throw AttributeError)"

text \<open>Line 94.\<close>

definition check_size :: "'x collaborators \<Rightarrow> addr \<Rightarrow> 'x \<Rightarrow> (unit, 'x) prog" where
  "check_size E r ori =
     bnd (rd r) (\<lambda>d. bnd (lift (check_image_size E d ori)) (\<lambda>d'. wr r d'))"

text \<open>Lines 97 to 101: the key is popped before the file is read.\<close>

definition load_sem_seg :: "'x collaborators \<Rightarrow> addr \<Rightarrow> ('x option, 'x) prog" where
  "load_sem_seg E r =
     bnd (rd r) (\<lambda>d.
       case map_of d ''sem_seg_file_name'' of
         Some f \<Rightarrow>
           bnd (wr r (AList.delete ''sem_seg_file_name'' d)) (\<lambda>_.
           bnd (lift (read_image E f ''L'')) (\<lambda>g. ret (Some (squeeze E g))))
       | None \<Rightarrow> ret None)"

text \<open>Lines 103 and 104.\<close>

definition force_debug_source :: "'x mapper \<Rightarrow> addr \<Rightarrow> (unit, 'x) prog" where
  "force_debug_source M r =
     (if is_debug M
      then bnd (rd r) (\<lambda>d. wr r (AList.update ''dataset_source'' (VInt 0) d))
      else ret ())"

text \<open>Lines 106 to 108. The value is used nowhere, but its evaluation may raise.\<close>

definition not_full_labeled :: "'x mapper \<Rightarrow> 'x dict \<Rightarrow> error + bool" where
  "not_full_labeled M d =
     (case map_of d ''dataset_source'' of
        None \<Rightarrow> Inr False
      | Some ds \<Rightarrow>
          if with_ann_type M
          then (case py_index (dataset_ann M) ds of
                  Inl e \<Rightarrow> Inl e
                | Inr a \<Rightarrow> Inr (a \<noteq> ''box''))
          else Inr False)"

text \<open>Lines 111 to 115: which pipeline is called.\<close>

definition select_augmentations :: "'x mapper \<Rightarrow> 'x dict \<Rightarrow> error + 'x augmentation_list" where
  "select_augmentations M d =
     (if use_diff_bs_size M \<and> is_train M then
        (case dataset_augs M of
           None \<Rightarrow> Inl AttributeError
         | Some augs \<Rightarrow>
             (case map_of d ''dataset_source'' of
                None \<Rightarrow> Inl KeyError
              | Some ds \<Rightarrow> py_index augs ds))
      else Inr (augmentations (inherited M)))"

text \<open>
  Lines 110 to 116. The copy of the image is a value, so \<^verbatim>\<open>copy.deepcopy(ori_image)\<close>
  is the image. The result is the augmented image, the augmented mask and the transforms.
\<close>

definition augment ::
  "'x mapper \<Rightarrow> 'x collaborators \<Rightarrow> addr \<Rightarrow> 'x \<Rightarrow> 'x option \<Rightarrow> ('x \<times> 'x option \<times> 'x, 'x) prog"
where
  "augment M E r ori sem =
     bnd (rd r) (\<lambda>d.
     bnd (lift (select_augmentations M d)) (\<lambda>p.
     bnd (emit (Augmented p)) (\<lambda>_.
     lift (apply_augmentations E p ori sem))))"

text \<open>Lines 118 to 123.\<close>

definition store_image :: "'x collaborators \<Rightarrow> addr \<Rightarrow> 'x \<Rightarrow> 'x option \<Rightarrow> (unit, 'x) prog" where
  "store_image E r img sem =
     bnd (rd r) (\<lambda>d.
     bnd (wr r (AList.update ''image'' (VExt (image_tensor E img)) d)) (\<lambda>_.
       case sem of
         None \<Rightarrow> ret ()
       | Some g \<Rightarrow>
           bnd (rd r) (\<lambda>d'. wr r (AList.update ''sem_seg'' (VExt (sem_seg_tensor E g)) d'))))"

text \<open>Lines 127 to 131.\<close>

definition proposals ::
  "'x mapper \<Rightarrow> 'x collaborators \<Rightarrow> addr \<Rightarrow> 'x \<Rightarrow> 'x \<Rightarrow> (unit, 'x) prog"
where
  "proposals M E r shape tfm =
     (case proposal_topk (inherited M) of
        None \<Rightarrow> ret ()
      | Some k \<Rightarrow>
          bnd (rd r) (\<lambda>d. bnd (lift (transform_proposals E d shape tfm k)) (\<lambda>d'. wr r d')))"

text \<open>Lines 133 to 137.\<close>

definition finish_inference :: "addr \<Rightarrow> (addr, 'x) prog" where
  "finish_inference r =
     bnd (rd r) (\<lambda>d.
     bnd (wr r (AList.delete ''sem_seg_file_name'' (AList.delete ''annotations'' d))) (\<lambda>_.
     ret r))"

text \<open>
  Lines 141 to 145. \<^verbatim>\<open>anno.pop(key, None)\<close> needs a dictionary: a list has a
  \<^verbatim>\<open>pop\<close> of another signature, the other values have none. With both flags set no
  \<^verbatim>\<open>pop\<close> is evaluated.
\<close>

definition strip_fields :: "'x mapper \<Rightarrow> 'x dict \<Rightarrow> 'x dict" where
  "strip_fields M d =
     (let d1 = (if \<not> use_instance_mask (inherited M) then AList.delete ''segmentation'' d else d)
      in if \<not> use_keypoint (inherited M) then AList.delete ''keypoints'' d1 else d1)"

definition strip_one :: "'x mapper \<Rightarrow> 'x val \<Rightarrow> (unit, 'x) prog" where
  "strip_one M v =
     (if use_instance_mask (inherited M) \<and> use_keypoint (inherited M) then ret ()
      else
        (case v of
           VRef a \<Rightarrow> bnd (rd a) (\<lambda>d. wr a (strip_fields M d))
         | VList _ \<Rightarrow> throw TypeError
         | _ \<Rightarrow> throw AttributeError))"

fun strip_all :: "'x mapper \<Rightarrow> 'x val list \<Rightarrow> (unit, 'x) prog" where
  "strip_all M [] = ret ()"
| "strip_all M (v # vs) = bnd (strip_one M v) (\<lambda>_. strip_all M vs)"

text \<open>
  Lines 148 to 154, one element of the comprehension:
  \<^verbatim>\<open>transform_instance_annotations\<close> changes the annotation in place and returns it,
  and \<^verbatim>\<open>obj.get("iscrowd", 0)\<close> is evaluated after it, on the same object.
\<close>

definition remap_one ::
  "'x mapper \<Rightarrow> 'x collaborators \<Rightarrow> 'x \<Rightarrow> 'x \<Rightarrow> 'x val \<Rightarrow> (addr \<times> 'x val, 'x) prog"
where
  "remap_one M E tfm shape v =
     (case v of
        VRef a \<Rightarrow>
          bnd (rd a) (\<lambda>d.
          bnd (emit (Remapped a)) (\<lambda>_.
          bnd (lift (transform_instance_annotations E d tfm shape
                       (keypoint_hflip_indices (inherited M)))) (\<lambda>d'.
          bnd (wr a d') (\<lambda>_.
          ret (a, case map_of d' ''iscrowd'' of None \<Rightarrow> VInt 0 | Some c \<Rightarrow> c)))))
      | _ \<Rightarrow> throw TypeError)"

fun remap_all ::
  "'x mapper \<Rightarrow> 'x collaborators \<Rightarrow> 'x \<Rightarrow> 'x \<Rightarrow> 'x val list \<Rightarrow> ((addr \<times> 'x val) list, 'x) prog"
where
  "remap_all M E tfm shape [] = ret []"
| "remap_all M E tfm shape (v # vs) =
     bnd (remap_one M E tfm shape v) (\<lambda>p.
     bnd (remap_all M E tfm shape vs) (\<lambda>ps. ret (p # ps)))"

text \<open>Line 155.\<close>

definition non_crowd :: "(addr \<times> 'x val) list \<Rightarrow> addr list" where
  "non_crowd all_annos = map fst (filter (\<lambda>ann. eq_zero (snd ann)) all_annos)"

fun read_all :: "addr list \<Rightarrow> ('x dict list, 'x) prog" where
  "read_all [] = ret []"
| "read_all (a # as) = bnd (rd a) (\<lambda>d. bnd (read_all as) (\<lambda>ds. ret (d # ds)))"

text \<open>Lines 161 and 162: \<^verbatim>\<open>instances.gt_masks\<close> raises when the field is not there.\<close>

definition get_bounding_boxes :: "'x collaborators \<Rightarrow> 'x list \<Rightarrow> 'x list" where
  "get_bounding_boxes E masks = map (mask_bounding_box E) masks"

definition recompute :: "'x mapper \<Rightarrow> 'x collaborators \<Rightarrow> 'x instances \<Rightarrow> error + 'x instances" where
  "recompute M E I =
     (if recompute_boxes (inherited M) then
        (case gt_masks I of
           None \<Rightarrow> Inl AttributeError
         | Some masks \<Rightarrow> Inr (I\<lparr>gt_boxes := get_bounding_boxes E masks\<rparr>))
      else Inr I)"

text \<open>
  What a \<^verbatim>\<open>for\<close> runs over: the elements of a list, the characters of a string,
  the keys of a dictionary. \<^verbatim>\<open>None\<close>, numbers and truth values are not iterable, an
  \<^verbatim>\<open>Instances\<close> object refuses to be iterated, and a library value is taken not
  to be iterable.
\<close>

definition iterate :: "'x val \<Rightarrow> ('x val list, 'x) prog" where
  "iterate v =
     (case v of
        VList vs \<Rightarrow> ret vs
      | VStr cs \<Rightarrow> ret (map (\<lambda>c. VStr [c]) cs)
      | VRef a \<Rightarrow> bnd (rd a) (\<lambda>d. ret (map (\<lambda>kv. VStr (fst kv)) d))
      | VInstances I \<Rightarrow> throw NotImplementedError
      | _ \<Rightarrow> throw TypeError)"

text \<open>
  Lines 139 to 163. The loop of line 141 runs over \<^verbatim>\<open>dataset_dict["annotations"]\<close>,
  the comprehension of line 148 over what \<^verbatim>\<open>dataset_dict.pop("annotations")\<close>
  returns, after the entry is removed.
\<close>

definition process_annotations ::
  "'x mapper \<Rightarrow> 'x collaborators \<Rightarrow> addr \<Rightarrow> 'x \<Rightarrow> 'x \<Rightarrow> (unit, 'x) prog"
where
  "process_annotations M E r shape tfm =
     bnd (rd r) (\<lambda>d.
       case map_of d ''annotations'' of
         None \<Rightarrow> ret ()
       | Some v \<Rightarrow>
           bnd (iterate v) (\<lambda>vs.
           bnd (strip_all M vs) (\<lambda>_.
           bnd (rd r) (\<lambda>d1.
             case map_of d1 ''annotations'' of
               None \<Rightarrow> throw KeyError
             | Some v1 \<Rightarrow>
                 bnd (wr r (AList.delete ''annotations'' d1)) (\<lambda>_.
                 bnd (iterate v1) (\<lambda>vs1.
                 bnd (remap_all M E tfm shape vs1) (\<lambda>all_annos.
                 bnd (read_all (non_crowd all_annos)) (\<lambda>annos.
                 bnd (emit (Collected annos)) (\<lambda>_.
                 bnd (lift (annotations_to_instances E annos shape
                              (instance_mask_format (inherited M)))) (\<lambda>I.
                 bnd (lift (recompute M E I)) (\<lambda>I'.
                 bnd (rd r) (\<lambda>d2.
                 wr r (AList.update ''instances''
                         (VInstances (filter_empty_instances E I')) d2)))))))))))))"

text \<open>Lines 164 to 168.\<close>

definition attach_ann_type :: "'x mapper \<Rightarrow> addr \<Rightarrow> (unit, 'x) prog" where
  "attach_ann_type M r =
     (if with_ann_type M then
        bnd (rd r) (\<lambda>d.
        bnd (wr r (AList.update ''pos_category_ids''
                     (case map_of d ''pos_category_ids'' of None \<Rightarrow> VList [] | Some v \<Rightarrow> v) d)) (\<lambda>_.
        bnd (rd r) (\<lambda>d1.
          case map_of d1 ''dataset_source'' of
            None \<Rightarrow> throw KeyError
          | Some ds \<Rightarrow>
              bnd (lift (py_index (dataset_ann M) ds)) (\<lambda>a.
              wr r (AList.update ''ann_type'' (VStr a) d1)))))
      else ret ())"

text \<open>Lines 169 to 173.\<close>

definition debug_labels :: "'x mapper \<Rightarrow> addr \<Rightarrow> (unit, 'x) prog" where
  "debug_labels M r =
     bnd (rd r) (\<lambda>d.
       if is_debug M \<and> (map_of d ''pos_category_ids'' = None
                        \<or> map_of d ''pos_category_ids'' = Some (VList []))
       then
         (case map_of d ''instances'' of
            None \<Rightarrow> throw KeyError
          | Some (VInstances I) \<Rightarrow>
              wr r (AList.update ''pos_category_ids''
                      (VList (map VInt (sorted_set (gt_classes I)))) d)
          | Some _ \<Rightarrow> throw AttributeError)
       else ret ())"

text \<open>Lines 139 to 174, the training branch.\<close>

definition finish_training ::
  "'x mapper \<Rightarrow> 'x collaborators \<Rightarrow> addr \<Rightarrow> 'x \<Rightarrow> 'x \<Rightarrow> (addr, 'x) prog"
where
  "finish_training M E r shape tfm =
     bnd (process_annotations M E r shape tfm) (\<lambda>_.
     bnd (attach_ann_type M r) (\<lambda>_.
     bnd (debug_labels M r) (\<lambda>_.
     ret r)))"

text \<open>Lines 87 to 101: the image and the mask are read.\<close>

definition load :: "'x mapper \<Rightarrow> 'x collaborators \<Rightarrow> addr \<Rightarrow> ('x \<times> 'x option, 'x) prog" where
  "load M E r =
     bnd (load_image M E r) (\<lambda>ori.
     bnd (check_size E r ori) (\<lambda>_.
     bnd (load_sem_seg E r) (\<lambda>sem.
     ret (ori, sem))))"

text \<open>Lines 87 to 131: everything between the copy and the test of the mode.\<close>

definition prepare ::
  "'x mapper \<Rightarrow> 'x collaborators \<Rightarrow> addr \<Rightarrow> ('x \<times> 'x, 'x) prog"
where
  "prepare M E r =
     bnd (load M E r) (\<lambda>(ori, sem).
     bnd (force_debug_source M r) (\<lambda>_.
     bnd (rd r) (\<lambda>d.
     bnd (lift (not_full_labeled M d)) (\<lambda>_.
     bnd (augment M E r ori sem) (\<lambda>(img, sem', tfm).
     bnd (store_image E r img sem') (\<lambda>_.
     bnd (proposals M E r (image_shape E img) tfm) (\<lambda>_.
     ret (image_shape E img, tfm))))))))"

text \<open>
  \<^verbatim>\<open>__call__\<close>: \<open>r\<close> is the caller's record; the result is the address of the
  record returned, or the exception raised.
\<close>

definition call :: "'x mapper \<Rightarrow> 'x collaborators \<Rightarrow> addr \<Rightarrow> (addr, 'x) prog" where
  "call M E r =
     bnd (deepcopy (recursion_limit E) r) (\<lambda>w.
     bnd (prepare M E w) (\<lambda>(shape, tfm).
       if \<not> is_train M then finish_inference w
       else finish_training M E w shape tfm))"

section \<open>Contracts of the collaborators\<close>

text \<open>
  What the statements below assume of the functions of detectron2. Two of them receive the
  working record itself: \<^verbatim>\<open>check_image_size\<close> may add \<^verbatim>\<open>width\<close> and
  \<^verbatim>\<open>height\<close>, \<^verbatim>\<open>transform_proposals\<close> replaces the proposal entries by
  \<^verbatim>\<open>proposals\<close>; neither touches another entry.
\<close>

definition proposal_keys :: "string set" where
  "proposal_keys = {''proposal_boxes'', ''proposal_bbox_mode'', ''proposal_objectness_logits'', ''proposals''}"

definition in_place_contract :: "'x collaborators \<Rightarrow> bool" where
  "in_place_contract E \<longleftrightarrow>
     (\<forall>d img d' k. check_image_size E d img = Inr d' \<longrightarrow> k \<notin> {''width'', ''height''} \<longrightarrow>
        map_of d' k = map_of d k) \<and>
     (\<forall>d shape tfm n d' k. transform_proposals E d shape tfm n = Inr d' \<longrightarrow> k \<notin> proposal_keys \<longrightarrow>
        map_of d' k = map_of d k)"


text \<open>
  \<^verbatim>\<open>filter_empty_instances\<close> returns \<^verbatim>\<open>instances[m]\<close> for a mask \<open>m\<close>
  of the rows it keeps: it selects rows, the same ones in every field.
\<close>

definition select_rows :: "nat list \<Rightarrow> 'x instances \<Rightarrow> 'x instances" where
  "select_rows js I =
     \<lparr> gt_boxes = map ((!) (gt_boxes I)) js,
       gt_classes = map ((!) (gt_classes I)) js,
       gt_masks = map_option (\<lambda>m. map ((!) m) js) (gt_masks I) \<rparr>"

definition row_filter :: "'x collaborators \<Rightarrow> bool" where
  "row_filter E \<longleftrightarrow>
     (\<forall>I. \<exists>js. (\<forall>j \<in> set js. j < length (gt_boxes I)) \<and>
             filter_empty_instances E I = select_rows js I)"

section \<open>Records of the usual shape\<close>

text \<open>
  A dataset record as the loaders of detectron2 build it: its keys are distinct, its
  annotations are distinct dictionaries of their own, and nothing else in it refers to a
  dictionary (the entries of the record other than \<^verbatim>\<open>annotations\<close>, and all the
  entries of an annotation, are numbers, strings, lists of those, or library values).
  \<open>plain_record h d as\<close> says so of the record \<open>d\<close> in the store \<open>h\<close>, with \<open>as\<close>
  the addresses of its annotations (none when the record has no
  \<^verbatim>\<open>annotations\<close>).
\<close>

fun ref_free :: "'x val \<Rightarrow> bool" where
  "ref_free (VRef a) = False"
| "ref_free (VList vs) = (\<forall>v \<in> set vs. ref_free v)"
| "ref_free v = True"

definition flat :: "'x dict \<Rightarrow> bool" where
  "flat d \<longleftrightarrow> (\<forall>kv \<in> set d. ref_free (snd kv))"

definition plain_record :: "'x dict list \<Rightarrow> 'x dict \<Rightarrow> addr list \<Rightarrow> bool" where
  "plain_record h d as \<longleftrightarrow>
     distinct (map fst d) \<and>
     (\<forall>kv \<in> set d. fst kv \<noteq> ''annotations'' \<longrightarrow> ref_free (snd kv)) \<and>
     (case map_of d ''annotations'' of None \<Rightarrow> as = [] | Some v \<Rightarrow> v = VList (map VRef as)) \<and>
     distinct as \<and> (\<forall>a \<in> set as. a < length h \<and> flat (h ! a))"

section \<open>Notions of the statements and of the proofs\<close>

text \<open>\<^verbatim>\<open>obj.get("iscrowd", 0)\<close>.\<close>

definition crowd_flag :: "'x dict \<Rightarrow> 'x val" where
  "crowd_flag d = (case map_of d ''iscrowd'' of None \<Rightarrow> VInt 0 | Some c \<Rightarrow> c)"

text \<open>The pipelines that were called, read off the trace.\<close>

fun pipelines :: "'x event list \<Rightarrow> 'x augmentation_list list" where
  "pipelines [] = []"
| "pipelines (Augmented p # evs) = p # pipelines evs"
| "pipelines (ev # evs) = pipelines evs"

text \<open>
  The \<^verbatim>\<open>dataset_source\<close> of the working record when the pipeline is selected, and
  the selection as a function of it.
\<close>

definition source_of :: "'x mapper \<Rightarrow> 'x dict \<Rightarrow> 'x val option" where
  "source_of M d = (if is_debug M then Some (VInt 0) else map_of d ''dataset_source'')"

definition pipeline_for :: "'x mapper \<Rightarrow> 'x val option \<Rightarrow> error + 'x augmentation_list" where
  "pipeline_for M ds =
     (if use_diff_bs_size M \<and> is_train M then
        (case dataset_augs M of
           None \<Rightarrow> Inl AttributeError
         | Some augs \<Rightarrow> (case ds of None \<Rightarrow> Inl KeyError | Some v \<Rightarrow> py_index augs v))
      else Inr (augmentations (inherited M)))"

text \<open>
  For the copy: all references in a value are to addresses from \<open>N\<close> on; \<open>v'\<close> is what
  some run of the copy makes of \<open>v\<close>; the record with its annotations renumbered from
  \<open>L\<close>.
\<close>

fun refs_ge :: "nat \<Rightarrow> 'x val \<Rightarrow> bool" where
  "refs_ge N (VRef a) = (N \<le> a)"
| "refs_ge N (VList vs) = (\<forall>v \<in> set vs. refs_ge N v)"
| "refs_ge N v = True"

definition copy_of :: "'x val \<Rightarrow> 'x val \<Rightarrow> bool" where
  "copy_of v v' \<longleftrightarrow> (\<exists>n st st'. deepcopy_val n v st = Some (v', st'))"

definition relabel :: "nat \<Rightarrow> nat \<Rightarrow> 'x dict \<Rightarrow> 'x dict" where
  "relabel L n d =
     map (\<lambda>kv. if fst kv = ''annotations'' then (fst kv, VList (map VRef [L..<L + n])) else kv) d"

text \<open>
  For the stages: the two stores differ at most in the entries \<open>K\<close> of the object at
  \<open>w\<close>; the two stores agree below \<open>N\<close>.
\<close>

definition only_record :: "string set \<Rightarrow> addr \<Rightarrow> 'x state \<Rightarrow> 'x state \<Rightarrow> bool" where
  "only_record K w s s' \<longleftrightarrow>
     length (heap s') = length (heap s) \<and>
     (\<forall>a. a \<noteq> w \<longrightarrow> heap s' ! a = heap s ! a) \<and>
     (\<forall>k. k \<notin> K \<longrightarrow> map_of (heap s' ! w) k = map_of (heap s ! w) k)"

definition prepared_keys :: "string set" where
  "prepared_keys = {''width'', ''height'', ''sem_seg_file_name'', ''dataset_source'', ''image'', ''sem_seg''}
     \<union> proposal_keys"

definition frame :: "nat \<Rightarrow> 'x state \<Rightarrow> 'x state \<Rightarrow> bool" where
  "frame N s s' \<longleftrightarrow> length (heap s') = length (heap s) \<and> (\<forall>a<N. heap s' ! a = heap s ! a)"

section \<open>A concrete setting\<close>

text \<open>
  Collaborators over \<open>int\<close>, small enough to be evaluated: every image reads as \<open>1\<close>,
  the pipeline leaves it as it is, the remapping of an annotation sets its
  \<^verbatim>\<open>bbox_mode\<close>, the instance collection takes box, class and mask from the
  annotations, the box of a mask \<open>m\<close> is \<open>m + 100\<close>, and an instance is empty when its
  box is \<open>0\<close>.
\<close>

definition example_inherited :: "int inherited" where
  "example_inherited =
     \<lparr> augmentations = AugmentationList [],
       image_format = ''BGR'',
       use_instance_mask = True,
       use_keypoint = False,
       instance_mask_format = ''polygon'',
       keypoint_hflip_indices = None,
       proposal_topk = None,
       recompute_boxes = False \<rparr>"

definition example_collaborators :: "int collaborators" where
  "example_collaborators =
     \<lparr> recursion_limit = 10,
       dataset_mapper_init = (\<lambda>t kw. Inr example_inherited),
       read_image = (\<lambda>f fmt. case f of VStr _ \<Rightarrow> Inr 1 | _ \<Rightarrow> Inl TypeError),
       check_image_size = (\<lambda>d img. Inr d),
       squeeze = (\<lambda>g. g),
       apply_augmentations = (\<lambda>p img sem. Inr (img, sem, 0)),
       image_shape = (\<lambda>img. 0),
       image_tensor = (\<lambda>img. img),
       sem_seg_tensor = (\<lambda>g. g),
       transform_proposals = (\<lambda>d shape tfm k. Inr d),
       transform_instance_annotations =
         (\<lambda>d tfm shape hf. Inr (AList.update ''bbox_mode'' (VInt 0) d)),
       annotations_to_instances = (\<lambda>ds shape fmt. Inr
         \<lparr> gt_boxes = map (\<lambda>d. case map_of d ''bbox'' of Some (VExt b) \<Rightarrow> b | _ \<Rightarrow> 0) ds,
           gt_classes =
             map (\<lambda>d. case map_of d ''category_id'' of Some (VInt c) \<Rightarrow> c | _ \<Rightarrow> 0) ds,
           gt_masks =
             (case ds of
                [] \<Rightarrow> None
              | d # _ \<Rightarrow>
                  (case map_of d ''segmentation'' of
                     None \<Rightarrow> None
                   | Some _ \<Rightarrow>
                       Some (map (\<lambda>d. case map_of d ''segmentation'' of
                                         Some (VExt m) \<Rightarrow> m | _ \<Rightarrow> 0) ds))) \<rparr>),
       mask_bounding_box = (\<lambda>m. m + 100),
       filter_empty_instances =
         (\<lambda>I. select_rows (filter (\<lambda>j. gt_boxes I ! j \<noteq> 0) [0..<length (gt_boxes I)]) I) \<rparr>"

text \<open>
  The arguments of a training mapper for one dataset with image-level labels, and the
  mapper they construct.
\<close>

definition example_args :: "int init_args" where
  "example_args =
     \<lparr> arg_is_train = True,
       arg_with_ann_type = False,
       arg_dataset_ann = [''image''],
       arg_use_diff_bs_size = False,
       arg_dataset_augs = [],
       arg_is_debug = False,
       arg_use_tar_dataset = False,
       arg_tarfile_path = [],
       arg_tar_index_dir = [],
       arg_kwargs = [] \<rparr>"

definition example_mapper :: "int mapper" where
  "example_mapper =
     \<lparr> with_ann_type = False,
       dataset_ann = [''image''],
       use_diff_bs_size = False,
       dataset_augs = None,
       is_debug = False,
       use_tar_dataset = False,
       is_train = True,
       inherited = example_inherited \<rparr>"

text \<open>
  One object of class 7 with a mask, one crowd region, and records that refer to them:
  with a dataset source, with another one, with a mask file and no dataset source, with
  an archive index in place of a file name, and with an entry \<^verbatim>\<open>instances\<close> of
  its own. A store holds the record at address 0 and the two annotations after it.
\<close>

definition example_object :: "int dict" where
  "example_object =
     [(''bbox'', VExt 5), (''category_id'', VInt 7), (''iscrowd'', VInt 0),
      (''segmentation'', VExt 3)]"

definition example_crowd :: "int dict" where
  "example_crowd = [(''bbox'', VExt 6), (''category_id'', VInt 8), (''iscrowd'', VInt 1)]"

definition example_store :: "int dict \<Rightarrow> int state" where
  "example_store record = \<lparr> heap = [record, example_object, example_crowd], trace = [] \<rparr>"

definition example_record :: "int dict" where
  "example_record =
     [(''file_name'', VStr ''a.jpg''), (''dataset_source'', VInt 0),
      (''annotations'', VList [VRef 1, VRef 2])]"


definition untagged_record :: "int dict" where
  "untagged_record =
     [(''file_name'', VStr ''a.jpg''), (''sem_seg_file_name'', VStr ''a.png''),
      (''annotations'', VList [VRef 1, VRef 2])]"

definition archive_record :: "int dict" where
  "archive_record = [(''tar_index'', VInt 5), (''dataset_source'', VInt 0)]"

definition labelled_record :: "int dict" where
  "labelled_record =
     [(''file_name'', VStr ''a.jpg''), (''instances'', VInt 1),
      (''annotations'', VList [VRef 1, VRef 2])]"

text \<open>What the remapping of the concrete setting makes of an annotation.\<close>

definition remapped :: "int dict \<Rightarrow> int dict" where
  "remapped d = d @ [(''bbox_mode'', VInt 0)]"

section \<open>The copy\<close>

text \<open>
  The copy keeps every object that was there and lets the store grow; the references in
  what it returns and in what it builds are to new objects; the copy of a record has the
  keys of the record.
\<close>

lemma deepcopy_preserves:
  "deepcopy_val n v st = Some (v', st') \<Longrightarrow>
     length (fst st) \<le> length (fst st') \<and> (\<forall>a<length (fst st). fst st' ! a = fst st ! a)"
  "deepcopy_vals n vs st = Some (vs', st') \<Longrightarrow>
     length (fst st) \<le> length (fst st') \<and> (\<forall>a<length (fst st). fst st' ! a = fst st ! a)"
  "deepcopy_items n kvs st = Some (kvs', st') \<Longrightarrow>
     length (fst st) \<le> length (fst st') \<and> (\<forall>a<length (fst st). fst st' ! a = fst st ! a)"
proof (induction n v st and n vs st and n kvs st arbitrary: v' st' and vs' st' and kvs' st'
    rule: deepcopy_val_deepcopy_vals_deepcopy_items.induct)
  case (2 n a st)
  show ?case
  proof (cases "map_of (snd st) a")
    case (Some b)
    with 2(2) show ?thesis by auto
  next
    case None
    with 2(2) obtain k items st1 where n: "n = Suc k" and a: "a < length (fst st)"
      and it: "deepcopy_items k (fst st ! a) (fst st @ [[]], (a, length (fst st)) # snd st) = Some (items, st1)"
      and st': "st' = ((fst st1)[length (fst st) := items], snd st1)"
      by (auto split: nat.splits if_splits option.splits simp: Let_def)
    from 2(1)[OF None n a refl it]
    have "length (fst st) + 1 \<le> length (fst st1)"
      and "\<forall>b<length (fst st) + 1. fst st1 ! b = (fst st @ [[]]) ! b" by auto
    then show ?thesis using st' by (auto simp: nth_append)
  qed
next
  case (10 n v vs st)
  from 10(3) obtain w st1 ws where a: "deepcopy_val n v st = Some (w, st1)"
    and b: "deepcopy_vals n vs st1 = Some (ws, st')"
    by (auto split: option.splits)
  from 10(1)[OF a] 10(2)[OF a refl b] show ?case by auto
next
  case (12 n kv kvs st)
  from 12(3) obtain w st1 ws where a: "deepcopy_val n (snd kv) st = Some (w, st1)"
    and b: "deepcopy_items n kvs st1 = Some (ws, st')"
    by (auto split: option.splits)
  from 12(1)[OF a] 12(2)[OF a refl b] show ?case by auto
qed (auto split: option.splits)

lemma deepcopy_fresh:
  "deepcopy_val n v st = Some (v', st') \<Longrightarrow> N \<le> length (fst st) \<Longrightarrow>
     \<forall>p \<in> set (snd st). N \<le> snd p \<Longrightarrow>
     N \<le> length (fst st') \<and> (\<forall>p \<in> set (snd st'). N \<le> snd p) \<and> refs_ge N v'"
  "deepcopy_vals n vs st = Some (vs', st') \<Longrightarrow> N \<le> length (fst st) \<Longrightarrow>
     \<forall>p \<in> set (snd st). N \<le> snd p \<Longrightarrow>
     N \<le> length (fst st') \<and> (\<forall>p \<in> set (snd st'). N \<le> snd p) \<and> (\<forall>v \<in> set vs'. refs_ge N v)"
  "deepcopy_items n kvs st = Some (kvs', st') \<Longrightarrow> N \<le> length (fst st) \<Longrightarrow>
     \<forall>p \<in> set (snd st). N \<le> snd p \<Longrightarrow>
     N \<le> length (fst st') \<and> (\<forall>p \<in> set (snd st'). N \<le> snd p) \<and> (\<forall>kv \<in> set kvs'. refs_ge N (snd kv))"
proof (induction n v st and n vs st and n kvs st arbitrary: v' st' and vs' st' and kvs' st'
    rule: deepcopy_val_deepcopy_vals_deepcopy_items.induct)
  case (1 n vs st)
  then show ?case by (fastforce split: option.splits)
next
  case (2 n a st)
  show ?case
  proof (cases "map_of (snd st) a")
    case (Some b)
    then have "(a, b) \<in> set (snd st)" by (rule map_of_SomeD)
    with 2(2,3,4) Some show ?thesis by force
  next
    case None
    with 2(2) obtain k items st1 where n: "n = Suc k" and a: "a < length (fst st)"
      and it: "deepcopy_items k (fst st ! a) (fst st @ [[]], (a, length (fst st)) # snd st) = Some (items, st1)"
      and st': "st' = ((fst st1)[length (fst st) := items], snd st1)" and v': "v' = VRef (length (fst st))"
      by (auto split: nat.splits if_splits option.splits simp: Let_def)
    from 2(1)[OF None n a refl it] 2(3,4)
    show ?thesis using st' v' by auto
  qed
next
  case (10 n v vs st)
  from 10(3) obtain w st1 ws where a: "deepcopy_val n v st = Some (w, st1)"
    and b: "deepcopy_vals n vs st1 = Some (ws, st')" and c: "vs' = w # ws"
    by (auto split: option.splits)
  from 10(1)[OF a 10(4,5)] 10(2)[OF a refl b] c show ?case by auto
next
  case (12 n kv kvs st)
  from 12(3) obtain w st1 ws where a: "deepcopy_val n (snd kv) st = Some (w, st1)"
    and b: "deepcopy_items n kvs st1 = Some (ws, st')" and c: "kvs' = (fst kv, w) # ws"
    by (auto split: option.splits)
  from 12(1)[OF a 12(4,5)] 12(2)[OF a refl b] c show ?case by auto
qed auto

lemma copy_ofI: "deepcopy_val n v st = Some (v', st') \<Longrightarrow> copy_of v v'"
  unfolding copy_of_def by blast

lemma deepcopy_items_lookup:
  "deepcopy_items n kvs st = Some (kws, st') \<Longrightarrow>
     (case map_of kvs k of
        None \<Rightarrow> map_of kws k = None
      | Some v \<Rightarrow> \<exists>v'. map_of kws k = Some v' \<and> copy_of v v')"
proof (induction kvs arbitrary: st kws)
  case Nil
  then show ?case by simp
next
  case (Cons kv kvs)
  from Cons.prems obtain w st1 ws where a: "deepcopy_val n (snd kv) st = Some (w, st1)"
    and b: "deepcopy_items n kvs st1 = Some (ws, st')" and c: "kws = (fst kv, w) # ws"
    by (auto split: option.splits)
  show ?case
  proof (cases "fst kv = k")
    case True
    with copy_ofI[OF a] c show ?thesis by (cases kv) auto
  next
    case False
    with Cons.IH[OF b] c show ?thesis by (cases kv) (auto split: option.splits)
  qed
qed


lemma deepcopy_vals_length:
  "deepcopy_vals n vs st = Some (ws, st') \<Longrightarrow> length ws = length vs"
  by (induction vs arbitrary: st ws) (auto split: option.splits)

lemma copy_of_empty_list:
  assumes "copy_of v v'"
  shows "v' = VList [] \<longleftrightarrow> v = VList []"
proof -
  from assms obtain n st st' where dv: "deepcopy_val n v st = Some (v', st')"
    unfolding copy_of_def by blast
  show ?thesis
  proof (cases v)
    case (VList vs)
    with dv obtain ws where "deepcopy_vals n vs st = Some (ws, st')" and v': "v' = VList ws"
      by (auto split: option.splits)
    then have "length ws = length vs" by (auto dest: deepcopy_vals_length)
    with VList v' show ?thesis by auto
  next
    case (VRef a)
    with dv show ?thesis
      by (auto split: option.splits nat.splits if_splits simp: Let_def)
  qed (use dv in auto)
qed

lemma deepcopy_ref_free: "ref_free v \<Longrightarrow> deepcopy_val n v st = Some (v, st)"
proof (induction v arbitrary: st)
  case (VList vs)
  have aux: "(\<forall>v \<in> set ws. \<forall>st. deepcopy_val n v st = Some (v, st))
      \<Longrightarrow> deepcopy_vals n ws st = Some (ws, st)" for ws st
    by (induction ws arbitrary: st) auto
  have "\<forall>v \<in> set vs. \<forall>st. deepcopy_val n v st = Some (v, st)"
    using VList by simp
  then have "deepcopy_vals n vs st = Some (vs, st)" by (rule aux)
  then show ?case by simp
qed auto

lemma deepcopy_items_flat: "flat d \<Longrightarrow> deepcopy_items n d st = Some (d, st)"
  by (induction d arbitrary: st) (auto simp: flat_def deepcopy_ref_free)

lemma deepcopy_Inl: "deepcopy n r s = (Inl e, s1) \<Longrightarrow> s1 = s \<and> e = RecursionError"
  by (auto simp: deepcopy_def split: option.splits val.splits prod.splits)

lemma deepcopy_Inr:
  assumes "deepcopy n r s = (Inr w, s1)"
  shows "w = length (heap s)" and "r < length (heap s)" and "trace s1 = trace s"
    and "length (heap s) < length (heap s1)"
    and "\<forall>a<length (heap s). heap s1 ! a = heap s ! a"
    and "\<And>k. case map_of (heap s ! r) k of
           None \<Rightarrow> map_of (heap s1 ! w) k = None
         | Some v \<Rightarrow> \<exists>v'. map_of (heap s1 ! w) k = Some v' \<and> copy_of v v'"
    and "\<forall>kv \<in> set (heap s1 ! w). refs_ge (length (heap s)) (snd kv)"
proof -
  from assms obtain h' memo where dv: "deepcopy_val n (VRef r) (heap s, []) = Some (VRef w, (h', memo))"
    and s1: "s1 = s\<lparr>heap := h'\<rparr>"
    by (auto simp: deepcopy_def split: option.splits val.splits prod.splits)
  from dv obtain k items st1 where n: "n = Suc k" and r: "r < length (heap s)"
    and w: "w = length (heap s)"
    and it: "deepcopy_items k (heap s ! r) (heap s @ [[]], [(r, length (heap s))]) = Some (items, st1)"
    and h': "h' = (fst st1)[length (heap s) := items]"
    by (auto split: nat.splits if_splits option.splits simp: Let_def)
  from deepcopy_preserves(3)[OF it]
  have len: "length (heap s) + 1 \<le> length (fst st1)"
    and old: "\<forall>a<length (heap s) + 1. fst st1 ! a = (heap s @ [[]]) ! a" by auto
  from deepcopy_fresh(3)[OF it, of "length (heap s)"]
  have fr: "\<forall>kv \<in> set items. refs_ge (length (heap s)) (snd kv)" by simp
  have hw: "heap s1 ! w = items" using s1 h' w len by simp
  show "w = length (heap s)" by (rule w)
  show "r < length (heap s)" by (rule r)
  show "trace s1 = trace s" using s1 by simp
  show "length (heap s) < length (heap s1)" using s1 h' len by simp
  show "\<forall>a<length (heap s). heap s1 ! a = heap s ! a"
    using s1 h' old by (auto simp: nth_append)
  show "\<forall>kv \<in> set (heap s1 ! w). refs_ge (length (heap s)) (snd kv)"
    using fr hw by simp
  show "case map_of (heap s ! r) k of
           None \<Rightarrow> map_of (heap s1 ! w) k = None
         | Some v \<Rightarrow> \<exists>v'. map_of (heap s1 ! w) k = Some v' \<and> copy_of v v'" for k
    using deepcopy_items_lookup[OF it, of k] hw by (auto split: option.splits)
qed

lemma copy_refs:
  "distinct as \<Longrightarrow> \<forall>a \<in> set as. a < length h \<and> flat (h ! a) \<and> map_of m a = None \<Longrightarrow>
   \<exists>m'. deepcopy_vals (Suc k) (map VRef as) (h, m)
         = Some (map VRef [length h..<length h + length as], (h @ map ((!) h) as, m'))"
proof (induction as arbitrary: h m)
  case Nil
  then show ?case by simp
next
  case (Cons a as)
  let ?h = "h @ [h ! a]" and ?m = "(a, length h) # m"
  have one: "deepcopy_val (Suc k) (VRef a) (h, m) = Some (VRef (length h), (?h, ?m))"
    using Cons.prems by (simp add: deepcopy_items_flat Let_def)
  have "\<forall>b \<in> set as. b < length ?h \<and> flat (?h ! b) \<and> map_of ?m b = None"
    using Cons.prems by (auto simp: nth_append)
  with Cons.IH[of ?h ?m] Cons.prems(1)
  obtain m' where rest: "deepcopy_vals (Suc k) (map VRef as) (?h, ?m)
         = Some (map VRef [length ?h..<length ?h + length as], (?h @ map ((!) ?h) as, m'))"
    by auto
  have same: "map ((!) ?h) as = map ((!) h) as"
    using Cons.prems by (auto simp: nth_append)
  have idx: "[length h..<length h + length (a # as)] = length h # [length ?h..<length ?h + length as]"
    by (simp add: upt_conv_Cons del: upt_Suc)
  show ?case by (subst idx) (use one rest same in \<open>simp del: upt_Suc\<close>)
qed

lemma relabel_no_annotations:
  "''annotations'' \<notin> fst ` set kvs \<Longrightarrow> relabel L n kvs = kvs"
  by (induction kvs) (auto simp: relabel_def)

lemma copy_items_plain:
  "distinct (map fst kvs) \<Longrightarrow>
   \<forall>kv \<in> set kvs. fst kv \<noteq> ''annotations'' \<longrightarrow> ref_free (snd kv) \<Longrightarrow>
   \<forall>v. map_of kvs ''annotations'' = Some v \<longrightarrow> v = VList (map VRef as) \<Longrightarrow>
   distinct as \<Longrightarrow> \<forall>a \<in> set as. a < length h \<and> flat (h ! a) \<and> map_of m a = None \<Longrightarrow>
   \<exists>m'. deepcopy_items (Suc k) kvs (h, m)
         = Some (relabel (length h) (length as) kvs,
                 (h @ (if ''annotations'' \<in> fst ` set kvs then map ((!) h) as else []), m'))"
proof (induction kvs)
  case Nil
  then show ?case by (simp add: relabel_def)
next
  case (Cons kv kvs)
  show ?case
  proof (cases "fst kv = ''annotations''")
    case True
    with Cons.prems(3) have v: "snd kv = VList (map VRef as)" by (cases kv) auto
    from True Cons.prems(1) have no: "''annotations'' \<notin> fst ` set kvs" by auto
    have "flat kvs"
      unfolding flat_def
    proof
      fix x assume x: "x \<in> set kvs"
      with no have "fst x \<noteq> ''annotations''" by force
      with Cons.prems(2) x show "ref_free (snd x)" by simp
    qed
    then have rest: "deepcopy_items (Suc k) kvs st = Some (kvs, st)" for st
      by (rule deepcopy_items_flat)
    from copy_refs[OF Cons.prems(4,5), of k] obtain m' where
      "deepcopy_vals (Suc k) (map VRef as) (h, m)
         = Some (map VRef [length h..<length h + length as], (h @ map ((!) h) as, m'))" ..
    with v rest True relabel_no_annotations[OF no] show ?thesis
      by (auto simp: relabel_def)
  next
    case False
    with Cons.prems(2) have "ref_free (snd kv)" by simp
    then have one: "deepcopy_val (Suc k) (snd kv) (h, m) = Some (snd kv, (h, m))"
      by (rule deepcopy_ref_free)
    from False Cons.prems(3) have "\<forall>v. map_of kvs ''annotations'' = Some v \<longrightarrow> v = VList (map VRef as)"
      by (cases kv) auto
    with Cons.IH Cons.prems obtain m' where
      "deepcopy_items (Suc k) kvs (h, m)
         = Some (relabel (length h) (length as) kvs,
                 (h @ (if ''annotations'' \<in> fst ` set kvs then map ((!) h) as else []), m'))"
      by auto
    with one False show ?thesis by (auto simp: relabel_def)
  qed
qed

lemma plain_record_not_self:
  assumes "plain_record h (h ! r) as"
  shows "r \<notin> set as"
proof
  assume r: "r \<in> set as"
  with assms have fl: "flat (h ! r)" by (simp add: plain_record_def)
  from r have ne: "as \<noteq> []" by auto
  from assms ne obtain v where "map_of (h ! r) ''annotations'' = Some v" "v = VList (map VRef as)"
    by (auto simp: plain_record_def split: option.splits)
  then have "(''annotations'', VList (map VRef as)) \<in> set (h ! r)" by (auto dest: map_of_SomeD)
  with fl have "ref_free (VList (map VRef as))" by (force simp: flat_def)
  with ne show False by (cases as) auto
qed

lemma deepcopy_plain:
  assumes pr: "plain_record (heap s) (heap s ! r) as" and r: "r < length (heap s)" and n: "2 \<le> n"
  shows "deepcopy n r s =
           (Inr (length (heap s)),
            s\<lparr>heap := heap s @ relabel (length (heap s) + 1) (length as) (heap s ! r)
                            # map ((!) (heap s)) as\<rparr>)"
proof -
  let ?h = "heap s" and ?N = "length (heap s)"
  from n obtain k where k: "n = Suc (Suc k)" by (metis One_nat_def Suc_1 Suc_le_D Suc_le_mono)
  have nr: "r \<notin> set as" using pr by (rule plain_record_not_self)
  have pre: "\<forall>a \<in> set as. a < length (?h @ [[]]) \<and> flat ((?h @ [[]]) ! a) \<and> map_of [(r, ?N)] a = None"
    using pr nr by (auto simp: plain_record_def nth_append)
  have d: "distinct (map fst (?h ! r))"
    and rf: "\<forall>kv \<in> set (?h ! r). fst kv \<noteq> ''annotations'' \<longrightarrow> ref_free (snd kv)"
    and da: "distinct as"
    using pr by (auto simp: plain_record_def)
  have an: "\<forall>v. map_of (?h ! r) ''annotations'' = Some v \<longrightarrow> v = VList (map VRef as)"
    using pr unfolding plain_record_def
    by (auto split: option.splits simp del: map_of_eq_Some_iff)
  from copy_items_plain[OF d rf an da pre, of k] obtain m' where
    it: "deepcopy_items (Suc k) (?h ! r) (?h @ [[]], [(r, ?N)])
         = Some (relabel (length (?h @ [[]])) (length as) (?h ! r),
                 ((?h @ [[]]) @ (if ''annotations'' \<in> fst ` set (?h ! r)
                                  then map ((!) (?h @ [[]])) as else []), m'))" ..
  have same: "map ((!) (?h @ [[]])) as = map ((!) ?h) as"
    using pr by (auto simp: plain_record_def nth_append)
  have emp: "as = []" if "''annotations'' \<notin> fst ` set (?h ! r)"
  proof -
    from that have "map_of (?h ! r) ''annotations'' = None" by (simp add: map_of_eq_None_iff)
    with pr show ?thesis unfolding plain_record_def by simp
  qed
  have heap: "((?h @ [[]]) @ (if ''annotations'' \<in> fst ` set (?h ! r)
                                  then map ((!) (?h @ [[]])) as else []))[?N := x]
              = ?h @ x # map ((!) ?h) as" for x
    using same emp by auto
  show ?thesis
    using it r k heap by (simp add: deepcopy_def Let_def)
qed

section \<open>The stages before the test of the mode\<close>

text \<open>Rules for sequencing, and what each stage changes, whatever its outcome.\<close>

lemma bndE:
  assumes "bnd m f s = (res, s')"
  obtains (fail) e where "m s = (Inl e, s')" "res = Inl e"
  | (ok) v s1 where "m s = (Inr v, s1)" "f v s1 = (res, s')"
  using assms by (auto simp: bnd_def split: prod.splits sum.splits)

lemma bnd_Inr: "bnd m f s = (Inr y, s') \<longleftrightarrow> (\<exists>v s1. m s = (Inr v, s1) \<and> f v s1 = (Inr y, s'))"
  by (auto simp: bnd_def split: prod.splits sum.splits)

lemma ret_eq [simp]: "ret v s = (res, s') \<longleftrightarrow> res = Inr v \<and> s' = s"
  by (auto simp: ret_def)

lemma throw_eq [simp]: "throw e s = (res, s') \<longleftrightarrow> res = Inl e \<and> s' = s"
  by (auto simp: throw_def)

lemma lift_eq [simp]: "lift r s = (res, s') \<longleftrightarrow> r = res \<and> s' = s"
  by (auto simp: lift_def)

lemma emit_eq [simp]: "emit ev s = (res, s') \<longleftrightarrow> res = Inr () \<and> s' = s\<lparr>trace := trace s @ [ev]\<rparr>"
  by (auto simp: emit_def)

lemma wr_eq [simp]: "wr a d s = (res, s') \<longleftrightarrow> res = Inr () \<and> s' = s\<lparr>heap := (heap s)[a := d]\<rparr>"
  by (auto simp: wr_def)

lemma rd_eq [simp]:
  "rd a s = (res, s') \<longleftrightarrow>
     s' = s \<and> (if a < length (heap s) then res = Inr (heap s ! a) else res = Inl DanglingReference)"
  by (auto simp: rd_def)

lemma only_record_refl [simp]: "only_record K w s s"
  by (simp add: only_record_def)

lemma only_record_mono: "only_record K1 w s s' \<Longrightarrow> K1 \<subseteq> K \<Longrightarrow> only_record K w s s'"
  by (auto simp: only_record_def)

lemma only_record_trans:
  "only_record K1 w s s1 \<Longrightarrow> only_record K2 w s1 s2 \<Longrightarrow> only_record (K1 \<union> K2) w s s2"
  by (simp add: only_record_def)

lemma contract_check:
  "in_place_contract E \<Longrightarrow> check_image_size E d img = Inr d' \<Longrightarrow>
     k \<noteq> ''width'' \<Longrightarrow> k \<noteq> ''height'' \<Longrightarrow> map_of d' k = map_of d k"
  by (simp add: in_place_contract_def)

lemma contract_proposals:
  "in_place_contract E \<Longrightarrow> transform_proposals E d shape tfm n = Inr d' \<Longrightarrow>
     k \<notin> proposal_keys \<Longrightarrow> map_of d' k = map_of d k"
  unfolding in_place_contract_def by blast

lemma only_record_write:
  "\<forall>k. k \<notin> K \<longrightarrow> map_of d k = map_of (heap s ! w) k \<Longrightarrow> w < length (heap s) \<Longrightarrow>
     only_record K w s (s\<lparr>heap := (heap s)[w := d]\<rparr>)"
  by (auto simp: only_record_def)

lemma load_image_effect: "load_image M E w s = (res, s') \<Longrightarrow> s' = s"
  by (auto simp: load_image_def elim!: bndE split: option.splits if_splits)

lemma check_size_effect:
  "check_size E w ori s = (res, s') \<Longrightarrow> in_place_contract E \<Longrightarrow>
     only_record {''width'', ''height''} w s s' \<and> trace s' = trace s"
  by (auto simp: check_size_def elim!: bndE split: if_splits
      intro!: only_record_write dest: contract_check)

lemma load_sem_seg_effect:
  "load_sem_seg E w s = (res, s') \<Longrightarrow>
     only_record {''sem_seg_file_name''} w s s' \<and> trace s' = trace s"
  by (auto simp: load_sem_seg_def delete_conv' elim!: bndE split: if_splits option.splits
      intro!: only_record_write)

lemma load_effect:
  "load M E w s = (res, s') \<Longrightarrow> in_place_contract E \<Longrightarrow>
     only_record {''width'', ''height'', ''sem_seg_file_name''} w s s' \<and> trace s' = trace s"
  unfolding load_def
  by (elim bndE; (drule load_image_effect)?; (drule (1) check_size_effect)?;
      (drule load_sem_seg_effect)?)
     (auto elim: only_record_mono dest: only_record_trans)

lemma force_debug_source_effect:
  "force_debug_source M w s = (res, s') \<Longrightarrow>
     only_record {''dataset_source''} w s s' \<and> trace s' = trace s \<and>
     (res = Inr () \<longrightarrow> map_of (heap s' ! w) ''dataset_source'' = source_of M (heap s ! w))"
  by (auto simp: force_debug_source_def source_of_def update_conv' elim!: bndE
      split: if_splits intro!: only_record_write)

lemma select_augmentations_pipeline_for:
  "select_augmentations M d = pipeline_for M (map_of d ''dataset_source'')"
  by (simp add: select_augmentations_def pipeline_for_def)

lemma augment_effect:
  "augment M E w ori sem s = (res, s') \<Longrightarrow>
     heap s' = heap s \<and>
     ((trace s' = trace s \<and> (\<exists>e. res = Inl e)) \<or>
      (\<exists>p. pipeline_for M (map_of (heap s ! w) ''dataset_source'') = Inr p
           \<and> trace s' = trace s @ [Augmented p]
           \<and> res = apply_augmentations E p ori sem))"
  by (auto simp: augment_def select_augmentations_pipeline_for elim!: bndE split: if_splits)

lemma store_image_effect:
  "store_image E w img sem s = (res, s') \<Longrightarrow>
     only_record {''image'', ''sem_seg''} w s s' \<and> trace s' = trace s"
  by (auto simp: store_image_def update_conv' only_record_def elim!: bndE
      split: if_splits option.splits)

lemma proposals_effect:
  "proposals M E w shape tfm s = (res, s') \<Longrightarrow> in_place_contract E \<Longrightarrow>
     only_record proposal_keys w s s' \<and> trace s' = trace s"
  by (auto simp: proposals_def elim!: bndE split: if_splits option.splits
      intro!: only_record_write dest: contract_proposals)

lemma prepare_alt:
  "prepare M E r =
     bnd (load M E r) (\<lambda>l.
     bnd (force_debug_source M r) (\<lambda>_.
     bnd (rd r) (\<lambda>d.
     bnd (lift (not_full_labeled M d)) (\<lambda>_.
     bnd (augment M E r (fst l) (snd l)) (\<lambda>a.
     bnd (store_image E r (fst a) (fst (snd a))) (\<lambda>_.
     bnd (proposals M E r (image_shape E (fst a)) (snd (snd a))) (\<lambda>_.
     ret (image_shape E (fst a), snd (snd a)))))))))"
  by (simp add: prepare_def split_def)

lemma prepare_effect:
  assumes "prepare M E w s = (res, s')" and "in_place_contract E"
  shows "only_record prepared_keys w s s' \<and>
     (trace s' = trace s \<or>
        (\<exists>p. trace s' = trace s @ [Augmented p] \<and>
             pipeline_for M (source_of M (heap s ! w)) = Inr p)) \<and>
     (\<forall>x. res = Inr x \<longrightarrow>
           map_of (heap s' ! w) ''dataset_source'' = source_of M (heap s ! w) \<and>
           w < length (heap s) \<and>
           (\<exists>p. trace s' = trace s @ [Augmented p] \<and>
                pipeline_for M (source_of M (heap s ! w)) = Inr p))"
  using assms(1) unfolding prepare_alt
  apply (elim bndE)
  apply (auto simp: only_record_def prepared_keys_def proposal_keys_def source_of_def
      split: if_splits
      dest!: load_effect[OF _ assms(2)] force_debug_source_effect augment_effect
        store_image_effect proposals_effect[OF _ assms(2)])
  done

section \<open>The stages after the test of the mode\<close>

lemma pipelines_append [simp]: "pipelines (xs @ ys) = pipelines xs @ pipelines ys"
  by (induction xs rule: pipelines.induct) auto

lemma frame_refl [simp]: "frame N s s"
  by (simp add: frame_def)

lemma frame_trans: "frame N s s1 \<Longrightarrow> frame N s1 s2 \<Longrightarrow> frame N s s2"
  by (simp add: frame_def)

lemma only_record_frame: "only_record K w s s' \<Longrightarrow> N \<le> w \<Longrightarrow> frame N s s'"
  by (auto simp: only_record_def frame_def)

lemma load_success_valid: "load M E w s = (Inr l, s') \<Longrightarrow> w < length (heap s')"
  by (auto simp: load_def load_image_def check_size_def load_sem_seg_def elim!: bndE
      split: if_splits option.splits)

lemma finish_inference_effect:
  "finish_inference w s = (res, s') \<Longrightarrow>
     only_record {''annotations'', ''sem_seg_file_name''} w s s' \<and> trace s' = trace s \<and>
     (\<forall>x. res = Inr x \<longrightarrow> x = w \<and> map_of (heap s' ! w) ''annotations'' = None \<and>
        map_of (heap s' ! w) ''sem_seg_file_name'' = None)"
  by (auto simp: finish_inference_def delete_conv' only_record_def elim!: bndE split: if_splits)

lemma attach_ann_type_effect:
  "attach_ann_type M w s = (res, s') \<Longrightarrow>
     only_record {''pos_category_ids'', ''ann_type''} w s s' \<and> trace s' = trace s \<and>
     (res = Inr () \<longrightarrow>
        (if with_ann_type M then
           map_of (heap s' ! w) ''pos_category_ids''
             = Some (case map_of (heap s ! w) ''pos_category_ids'' of None \<Rightarrow> VList [] | Some v \<Rightarrow> v) \<and>
           (\<exists>ds a. map_of (heap s ! w) ''dataset_source'' = Some ds \<and>
                   py_index (dataset_ann M) ds = Inr a \<and>
                   map_of (heap s' ! w) ''ann_type'' = Some (VStr a))
         else s' = s))"
  by (auto simp: attach_ann_type_def update_conv' only_record_def elim!: bndE
      split: if_splits option.splits)

lemma debug_labels_effect:
  "debug_labels M w s = (res, s') \<Longrightarrow>
     only_record {''pos_category_ids''} w s s' \<and> trace s' = trace s \<and>
     (res = Inr () \<longrightarrow>
        (if is_debug M \<and> (map_of (heap s ! w) ''pos_category_ids'' = None
                          \<or> map_of (heap s ! w) ''pos_category_ids'' = Some (VList []))
         then \<exists>I. map_of (heap s ! w) ''instances'' = Some (VInstances I) \<and>
                  map_of (heap s' ! w) ''pos_category_ids''
                    = Some (VList (map VInt (sorted_set (gt_classes I))))
         else s' = s))"
  by (auto simp: debug_labels_def update_conv' only_record_def elim!: bndE
      split: if_splits option.splits val.splits)

lemma strip_one_frame:
  "strip_one M v s = (res, s') \<Longrightarrow> \<forall>a. v = VRef a \<longrightarrow> N \<le> a \<Longrightarrow>
     frame N s s' \<and> trace s' = trace s"
  by (auto simp: strip_one_def frame_def elim!: bndE split: if_splits val.splits)

lemma strip_all_frame:
  "strip_all M vs s = (res, s') \<Longrightarrow> \<forall>a. VRef a \<in> set vs \<longrightarrow> N \<le> a \<Longrightarrow>
     frame N s s' \<and> trace s' = trace s"
proof (induction vs arbitrary: s)
  case Nil
  then show ?case by simp
next
  case (Cons v vs)
  from Cons.prems(1) have "bnd (strip_one M v) (\<lambda>_. strip_all M vs) s = (res, s')" by simp
  then show ?case
  proof (cases rule: bndE)
    case (fail e)
    with Cons.prems(2) strip_one_frame[of M v s "Inl e" s' N] show ?thesis by simp
  next
    case (ok u s1)
    with Cons.prems(2) strip_one_frame[of M v s "Inr u" s1 N] Cons.IH[of s1]
    show ?thesis by (auto intro: frame_trans)
  qed
qed

lemma remap_one_frame:
  "remap_one M E tfm shape v s = (res, s') \<Longrightarrow> \<forall>a. v = VRef a \<longrightarrow> N \<le> a \<Longrightarrow>
     frame N s s' \<and> pipelines (trace s') = pipelines (trace s)"
  by (auto simp: remap_one_def frame_def elim!: bndE split: if_splits val.splits)

lemma remap_all_frame:
  "remap_all M E tfm shape vs s = (res, s') \<Longrightarrow> \<forall>a. VRef a \<in> set vs \<longrightarrow> N \<le> a \<Longrightarrow>
     frame N s s' \<and> pipelines (trace s') = pipelines (trace s)"
proof (induction vs arbitrary: s res)
  case Nil
  then show ?case by simp
next
  case (Cons v vs)
  from Cons.prems(1) show ?case
    apply simp
    apply (elim bndE)
    using Cons.prems(2) Cons.IH
    apply (auto dest!: remap_one_frame[where N = N] intro: frame_trans)
    done
qed

lemma read_all_effect: "read_all as s = (res, s') \<Longrightarrow> s' = s"
proof (induction as arbitrary: res)
  case Nil
  then show ?case by simp
next
  case (Cons a as)
  from Cons.prems show ?case
    by (auto elim!: bndE split: if_splits dest: Cons.IH)
qed

lemma iterate_effect:
  "iterate v s = (res, s') \<Longrightarrow>
     s' = s \<and> (\<forall>vs a. res = Inr vs \<longrightarrow> VRef a \<in> set vs \<longrightarrow> v = VList vs)"
  by (auto simp: iterate_def elim!: bndE split: val.splits if_splits)

lemma iterate_list [simp]: "iterate (VList vs) = ret vs"
  by (simp add: iterate_def)

lemma strip_one_keeps:
  "strip_one M v s = (res, s') \<Longrightarrow>
     map_of (heap s' ! a) ''annotations'' = map_of (heap s ! a) ''annotations''"
  by (auto simp: strip_one_def strip_fields_def delete_conv' Let_def nth_list_update
      elim!: bndE split: if_splits val.splits)

lemma strip_all_keeps:
  "strip_all M vs s = (res, s') \<Longrightarrow>
     map_of (heap s' ! a) ''annotations'' = map_of (heap s ! a) ''annotations''"
proof (induction vs arbitrary: s)
  case Nil
  then show ?case by simp
next
  case (Cons v vs)
  from Cons.prems have "bnd (strip_one M v) (\<lambda>_. strip_all M vs) s = (res, s')" by simp
  then show ?case
  proof (cases rule: bndE)
    case (fail e)
    then show ?thesis by (simp add: strip_one_keeps)
  next
    case (ok u s1)
    with Cons.IH[of s1] strip_one_keeps[of M v s "Inr u" s1 a] show ?thesis by simp
  qed
qed

lemma bnd_rd: "a < length (heap s) \<Longrightarrow> bnd (rd a) f s = f (heap s ! a) s"
  by (simp add: bnd_def rd_def)

lemma bnd_wr: "bnd (wr a d) f s = f () (s\<lparr>heap := (heap s)[a := d]\<rparr>)"
  by (simp add: bnd_def wr_def)

lemma process_annotations_frame:
  assumes "process_annotations M E w shape tfm s = (res, s')" and "N \<le> w"
    and "\<forall>vs a. map_of (heap s ! w) ''annotations'' = Some (VList vs) \<longrightarrow> VRef a \<in> set vs \<longrightarrow> N \<le> a"
  shows "frame N s s' \<and> pipelines (trace s') = pipelines (trace s)"
proof -
  from assms(1) consider (stop) "s' = s"
    | (run) v vs where "map_of (heap s ! w) ''annotations'' = Some v" "w < length (heap s)"
      "iterate v s = (Inr vs, s)"
      "bnd (strip_all M vs) (\<lambda>_.
       bnd (rd w) (\<lambda>d1.
         case map_of d1 ''annotations'' of
           None \<Rightarrow> throw KeyError
         | Some v1 \<Rightarrow>
             bnd (wr w (AList.delete ''annotations'' d1)) (\<lambda>_.
             bnd (iterate v1) (\<lambda>vs1.
             bnd (remap_all M E tfm shape vs1) (\<lambda>all_annos.
             bnd (read_all (non_crowd all_annos)) (\<lambda>annos.
             bnd (emit (Collected annos)) (\<lambda>_.
             bnd (lift (annotations_to_instances E annos shape
                          (instance_mask_format (inherited M)))) (\<lambda>I.
             bnd (lift (recompute M E I)) (\<lambda>I'.
             bnd (rd w) (\<lambda>d2.
             wr w (AList.update ''instances''
                     (VInstances (filter_empty_instances E I')) d2))))))))))) s = (res, s')"
  proof (cases "w < length (heap s)")
    case False
    with assms(1) have "s' = s"
      by (auto simp: process_annotations_def elim!: bndE)
    then show ?thesis by (rule that(1))
  next
    case valid: True
    show ?thesis
    proof (cases "map_of (heap s ! w) ''annotations''")
      case None
      with assms(1) valid have "s' = s"
        by (simp add: process_annotations_def bnd_rd)
      then show ?thesis by (rule that(1))
    next
      case (Some v)
      with assms(1) valid have it: "bnd (iterate v) (\<lambda>vs.
       bnd (strip_all M vs) (\<lambda>_.
       bnd (rd w) (\<lambda>d1.
         case map_of d1 ''annotations'' of
           None \<Rightarrow> throw KeyError
         | Some v1 \<Rightarrow>
             bnd (wr w (AList.delete ''annotations'' d1)) (\<lambda>_.
             bnd (iterate v1) (\<lambda>vs1.
             bnd (remap_all M E tfm shape vs1) (\<lambda>all_annos.
             bnd (read_all (non_crowd all_annos)) (\<lambda>annos.
             bnd (emit (Collected annos)) (\<lambda>_.
             bnd (lift (annotations_to_instances E annos shape
                          (instance_mask_format (inherited M)))) (\<lambda>I.
             bnd (lift (recompute M E I)) (\<lambda>I'.
             bnd (rd w) (\<lambda>d2.
             wr w (AList.update ''instances''
                     (VInstances (filter_empty_instances E I')) d2)))))))))))) s = (res, s')"
        by (simp add: process_annotations_def bnd_rd)
      then show ?thesis
      proof (cases rule: bndE)
        case (fail e)
        from iterate_effect[OF fail(1)] have "s' = s" by simp
        then show ?thesis by (rule that(1))
      next
        case (ok vs s1)
        from iterate_effect[OF ok(1)] have "s1 = s" by simp
        with ok Some valid show ?thesis by (intro that(2)[of v vs]) simp_all
      qed
    qed
  qed
  then show ?thesis
  proof cases
    case stop
    then show ?thesis by simp
  next
    case run
    from iterate_effect[OF run(3)] run(1) assms(3)
    have fresh: "\<forall>a. VRef a \<in> set vs \<longrightarrow> N \<le> a" by blast
    from run(4) show ?thesis
    proof (cases rule: bndE)
      case (fail e)
      with strip_all_frame[OF fail(1) fresh] show ?thesis by simp
    next
      case (ok u s1)
      from strip_all_frame[OF ok(1) fresh]
      have fr1: "frame N s s1" "trace s1 = trace s" by simp_all
      from strip_all_keeps[OF ok(1)] run(1)
      have keep: "map_of (heap s1 ! w) ''annotations'' = Some v" by simp
      from fr1 run(2) have len: "w < length (heap s1)" by (simp add: frame_def)
      define s2 where "s2 = s1\<lparr>heap := (heap s1)[w := AList.delete ''annotations'' (heap s1 ! w)]\<rparr>"
      from assms(2) have fr2: "frame N s1 s2" "trace s2 = trace s1"
        by (auto simp: s2_def frame_def)
      from len have len2: "w < length (heap s2)" by (simp add: s2_def)
      from ok(2) keep len have rest: "bnd (iterate v) (\<lambda>vs1.
             bnd (remap_all M E tfm shape vs1) (\<lambda>all_annos.
             bnd (read_all (non_crowd all_annos)) (\<lambda>annos.
             bnd (emit (Collected annos)) (\<lambda>_.
             bnd (lift (annotations_to_instances E annos shape
                          (instance_mask_format (inherited M)))) (\<lambda>I.
             bnd (lift (recompute M E I)) (\<lambda>I'.
             bnd (rd w) (\<lambda>d2.
             wr w (AList.update ''instances''
                     (VInstances (filter_empty_instances E I')) d2)))))))) s2 = (res, s')"
        by (simp add: bnd_rd bnd_wr s2_def)
      have "frame N s2 s' \<and> pipelines (trace s') = pipelines (trace s2)"
        using rest
      proof (cases rule: bndE)
        case (fail e)
        from iterate_effect[OF fail(1)] show ?thesis by simp
      next
        case inner: (ok vs1 s3)
        from iterate_effect[OF inner(1)] have s3: "s3 = s2"
          and "\<forall>a. VRef a \<in> set vs1 \<longrightarrow> v = VList vs1" by simp_all
        with run(1) assms(3) have fresh1: "\<forall>a. VRef a \<in> set vs1 \<longrightarrow> N \<le> a" by blast
        from inner(2) show ?thesis
          unfolding s3
          apply (elim bndE)
          using assms(2)
                   apply (auto dest!: remap_all_frame[OF _ fresh1] read_all_effect
              split: if_splits simp: frame_def)
          done
      qed
      with fr1 fr2 show ?thesis by (auto intro: frame_trans)
    qed
  qed
qed

lemma process_annotations_instances:
  assumes "process_annotations M E w shape tfm s = (Inr u, s')"
    and "map_of (heap s ! w) ''annotations'' = Some v"
  shows "\<exists>I I'. recompute M E I = Inr I' \<and>
           map_of (heap s' ! w) ''instances'' = Some (VInstances (filter_empty_instances E I'))"
  using assms unfolding process_annotations_def
  apply (auto simp: bnd_Inr update_conv' split: if_splits option.splits val.splits)
  apply blast
  done

lemma bnd_ok: "m s = (Inr v, s1) \<Longrightarrow> bnd m f s = f v s1"
  by (simp add: bnd_def)

lemma bnd_fail: "m s = (Inl e, s1) \<Longrightarrow> bnd m f s = (Inl e, s1)"
  by (simp add: bnd_def)

lemma bnd_ret: "bnd (ret v) f s = f v s"
  by (simp add: bnd_def ret_def)

lemma strip_all_length: "strip_all M vs s = (res, s') \<Longrightarrow> length (heap s') = length (heap s)"
  using strip_all_frame[of M vs s res s' 0] by (simp add: frame_def)

lemma process_annotations_stripped:
  assumes "w < length (heap s)" and "map_of (heap s ! w) ''annotations'' = Some (VList vs)"
    and "strip_all M vs s = (Inr u, s1)"
  shows "process_annotations M E w shape tfm s =
     bnd (remap_all M E tfm shape vs) (\<lambda>all_annos.
     bnd (read_all (non_crowd all_annos)) (\<lambda>annos.
     bnd (emit (Collected annos)) (\<lambda>_.
     bnd (lift (annotations_to_instances E annos shape
                  (instance_mask_format (inherited M)))) (\<lambda>I.
     bnd (lift (recompute M E I)) (\<lambda>I'.
     bnd (rd w) (\<lambda>d2.
     wr w (AList.update ''instances''
             (VInstances (filter_empty_instances E I')) d2)))))))
       (s1\<lparr>heap := (heap s1)[w := AList.delete ''annotations'' (heap s1 ! w)]\<rparr>)"
proof -
  from strip_all_length[OF assms(3)] assms(1) have len: "w < length (heap s1)" by simp
  from strip_all_keeps[OF assms(3)] assms(2)
  have keep: "map_of (heap s1 ! w) ''annotations'' = Some (VList vs)" by simp
  show ?thesis
    by (simp add: process_annotations_def bnd_rd assms(1,2) bnd_ret bnd_ok[where m = "strip_all M vs" and s = s, OF assms(3)] len keep
        bnd_wr)
qed

lemma process_annotations_unstripped:
  assumes "w < length (heap s)" and "map_of (heap s ! w) ''annotations'' = Some (VList vs)"
    and "strip_all M vs s = (Inl e, s1)"
  shows "process_annotations M E w shape tfm s = (Inl e, s1)"
  by (simp add: process_annotations_def bnd_rd assms(1,2) bnd_ret bnd_fail[where m = "strip_all M vs" and s = s, OF assms(3)])

section \<open>The whole call\<close>

lemma call_alt:
  "call M E r =
     bnd (deepcopy (recursion_limit E) r) (\<lambda>w.
     bnd (prepare M E w) (\<lambda>x.
       if \<not> is_train M then finish_inference w
       else finish_training M E w (fst x) (snd x)))"
  by (simp add: call_def split_def)

lemma finish_training_frame:
  assumes "finish_training M E w shape tfm s = (res, s')" and "N \<le> w"
    and "\<forall>vs a. map_of (heap s ! w) ''annotations'' = Some (VList vs) \<longrightarrow> VRef a \<in> set vs \<longrightarrow> N \<le> a"
  shows "frame N s s' \<and> pipelines (trace s') = pipelines (trace s)"
  using assms(1) unfolding finish_training_def
  apply (elim bndE)
  using assms(2)
     apply (auto dest!: process_annotations_frame[OF _ assms(2,3)] attach_ann_type_effect
      debug_labels_effect only_record_frame[where N = N] intro: frame_trans)
  done

lemma finish_training_instances:
  assumes "finish_training M E w shape tfm s = (Inr x, s')"
    and "map_of (heap s ! w) ''annotations'' = Some v"
  shows "x = w \<and> (\<exists>I I'. recompute M E I = Inr I' \<and>
           map_of (heap s' ! w) ''instances'' = Some (VInstances (filter_empty_instances E I')))"
proof -
  from assms(1) obtain s1 s2 where pa: "process_annotations M E w shape tfm s = (Inr (), s1)"
    and at: "attach_ann_type M w s1 = (Inr (), s2)" and dl: "debug_labels M w s2 = (Inr (), s')"
    and x: "x = w"
    by (auto simp: finish_training_def bnd_Inr)
  from process_annotations_instances[OF pa assms(2)] obtain I I' where
    I: "recompute M E I = Inr I'"
    "map_of (heap s1 ! w) ''instances'' = Some (VInstances (filter_empty_instances E I'))"
    by blast
  from attach_ann_type_effect[OF at] debug_labels_effect[OF dl]
  have "map_of (heap s' ! w) ''instances'' = map_of (heap s1 ! w) ''instances''"
    by (simp add: only_record_def)
  with I x show ?thesis by auto
qed

lemma refs_ge_list: "refs_ge N (VList vs) \<Longrightarrow> VRef a \<in> set vs \<Longrightarrow> N \<le> a"
  by force

lemma call_frame:
  assumes "call M E r s = (res, s')" and "in_place_contract E"
  shows "length (heap s) \<le> length (heap s')" and "\<forall>a<length (heap s). heap s' ! a = heap s ! a"
    and "\<And>w. res = Inr w \<Longrightarrow> length (heap s) \<le> w \<and> w < length (heap s')"
proof -
  let ?N = "length (heap s)"
  have "length (heap s) \<le> length (heap s') \<and> (\<forall>a<length (heap s). heap s' ! a = heap s ! a)
     \<and> (\<forall>w. res = Inr w \<longrightarrow> length (heap s) \<le> w \<and> w < length (heap s'))"
    using assms(1) unfolding call_alt
  proof (cases rule: bndE)
    case (fail e)
    then show ?thesis by (auto dest: deepcopy_Inl)
  next
    case (ok w s1)
    note dc = deepcopy_Inr[OF ok(1)]
    have fresh1: "\<forall>vs a. map_of (heap s1 ! w) ''annotations'' = Some (VList vs) \<longrightarrow>
        VRef a \<in> set vs \<longrightarrow> ?N \<le> a"
    proof (intro allI impI)
      fix vs a
      assume "map_of (heap s1 ! w) ''annotations'' = Some (VList vs)" and a: "VRef a \<in> set vs"
      then have "(''annotations'', VList vs) \<in> set (heap s1 ! w)" by (auto dest: map_of_SomeD)
      with dc(7) have "refs_ge ?N (VList vs)" by force
      then show "?N \<le> a" using a by (rule refs_ge_list)
    qed
    from ok(2) show ?thesis
    proof (cases rule: bndE)
      case (fail e)
      from prepare_effect[OF fail(1) assms(2)] have "frame ?N s1 s'"
        using dc(1) by (auto intro: only_record_frame)
      with dc fail(2) show ?thesis by (auto simp: frame_def)
    next
      case (ok x s2)
      from prepare_effect[OF ok(1) assms(2)]
      have or: "only_record prepared_keys w s1 s2" by simp
      then have f12: "frame ?N s1 s2" using dc(1) by (auto intro: only_record_frame)
      have "''annotations'' \<notin> prepared_keys"
        by (simp add: prepared_keys_def proposal_keys_def)
      with or have "map_of (heap s2 ! w) ''annotations'' = map_of (heap s1 ! w) ''annotations''"
        by (simp add: only_record_def)
      with fresh1 have fresh2: "\<forall>vs a. map_of (heap s2 ! w) ''annotations'' = Some (VList vs) \<longrightarrow>
        VRef a \<in> set vs \<longrightarrow> ?N \<le> a" by simp
      have w: "?N \<le> w" using dc(1) by simp
      have "frame ?N s2 s' \<and> (\<forall>y. res = Inr y \<longrightarrow> y = w)"
      proof (cases "is_train M")
        case True
        with ok(2) have ft: "finish_training M E w (fst x) (snd x) s2 = (res, s')" by simp
        from finish_training_frame[OF ft w fresh2] ft show ?thesis
          by (auto simp: finish_training_def bnd_Inr)
      next
        case False
        with ok(2) have "finish_inference w s2 = (res, s')" by simp
        from finish_inference_effect[OF this] w show ?thesis
          by (auto intro: only_record_frame)
      qed
      with f12 dc show ?thesis by (auto simp: frame_def)
    qed
  qed
  then show "length (heap s) \<le> length (heap s')" and "\<forall>a<length (heap s). heap s' ! a = heap s ! a"
    and "\<And>w. res = Inr w \<Longrightarrow> length (heap s) \<le> w \<and> w < length (heap s')"
    by blast+
qed

lemma load_without_file_name:
  "w < length (heap s) \<Longrightarrow> map_of (heap s ! w) ''file_name'' = None \<Longrightarrow>
     prepare M E w s = (Inl AttributeError, s)"
  by (simp add: prepare_alt load_def load_image_def bnd_def rd_def throw_def)

lemma prepare_without_source:
  assumes "load M E w s = (Inr l, s2)" and "\<not> is_debug M" and "use_diff_bs_size M" and "is_train M"
    and "dataset_augs M = Some augs" and "map_of (heap s2 ! w) ''dataset_source'' = None"
  shows "prepare M E w s = (Inl KeyError, s2)"
proof -
  from load_success_valid[OF assms(1)] have "w < length (heap s2)" .
  with assms show ?thesis
    by (simp add: prepare_alt bnd_def force_debug_source_def ret_def rd_def lift_def
        not_full_labeled_def augment_def select_augmentations_def)
qed

lemma call_stages:
  assumes "call M E r s = (Inr w, s')"
  obtains s1 x s2 where "deepcopy (recursion_limit E) r s = (Inr w, s1)"
    and "prepare M E w s1 = (Inr x, s2)"
    and "\<not> is_train M \<Longrightarrow> finish_inference w s2 = (Inr w, s')"
    and "is_train M \<Longrightarrow> finish_training M E w (fst x) (snd x) s2 = (Inr w, s')"
proof -
  from assms obtain w1 s1 x s2 where d: "deepcopy (recursion_limit E) r s = (Inr w1, s1)"
    and p: "prepare M E w1 s1 = (Inr x, s2)"
    and f: "(if \<not> is_train M then finish_inference w1
             else finish_training M E w1 (fst x) (snd x)) s2 = (Inr w, s')"
    by (auto simp: call_alt bnd_Inr)
  from f have "w = w1"
    by (auto simp: finish_inference_def finish_training_def bnd_Inr split: if_splits)
  with d p f that show thesis by (auto split: if_splits)
qed

lemma call_training:
  assumes "is_train M" and "call M E r s = (Inr w, s')"
  shows "\<exists>s1 x s2. deepcopy (recursion_limit E) r s = (Inr w, s1) \<and>
           prepare M E w s1 = (Inr x, s2) \<and>
           finish_training M E w (fst x) (snd x) s2 = (Inr w, s')"
  using assms(2) by (rule call_stages) (use assms(1) in blast)

lemma call_inference:
  assumes "\<not> is_train M" and "call M E r s = (Inr w, s')"
  shows "\<exists>s1 x s2. deepcopy (recursion_limit E) r s = (Inr w, s1) \<and>
           prepare M E w s1 = (Inr x, s2) \<and> finish_inference w s2 = (Inr w, s')"
  using assms(2) by (rule call_stages) (use assms(1) in blast)



lemma annotations_kept:
  assumes "deepcopy n r s = (Inr w, s1)" and "only_record prepared_keys w s1 s2"
    and "map_of (heap s ! r) ''annotations'' = Some v"
  shows "\<exists>v'. map_of (heap s2 ! w) ''annotations'' = Some v' \<and> copy_of v v'"
proof -
  from deepcopy_Inr(6)[OF assms(1), of "''annotations''"] assms(3)
  obtain v' where "map_of (heap s1 ! w) ''annotations'' = Some v'" "copy_of v v'" by auto
  moreover have "''annotations'' \<notin> prepared_keys"
    by (simp add: prepared_keys_def proposal_keys_def)
  ultimately show ?thesis using assms(2) by (auto simp: only_record_def)
qed

section \<open>The annotations of a record of the usual shape\<close>

text \<open>
  The copies of the annotations of such a record lie one after the other behind the copy
  of the record, so the two loops over them have a closed form.
\<close>

lemma state_heap_same [simp]: "s\<lparr>heap := heap s\<rparr> = s"
  by simp

lemma upt_head: "[n..<n + Suc k] = n # [Suc n..<Suc n + k]"
  by (simp add: upt_conv_Cons del: upt_Suc)

lemma strip_one_plain:
  "heap s = pre @ d # rest \<Longrightarrow>
     strip_one M (VRef (length pre)) s = (Inr (), s\<lparr>heap := pre @ strip_fields M d # rest\<rparr>)"
  by (auto simp: strip_one_def strip_fields_def bnd_def rd_def wr_def ret_def)

lemma strip_all_plain:
  "heap s = pre @ ds @ post \<Longrightarrow>
     strip_all M (map VRef [length pre..<length pre + length ds]) s
       = (Inr (), s\<lparr>heap := pre @ map (strip_fields M) ds @ post\<rparr>)"
proof (induction ds arbitrary: pre s)
  case Nil
  then show ?case by (simp add: ret_def)
next
  case (Cons d ds)
  let ?s1 = "s\<lparr>heap := pre @ strip_fields M d # ds @ post\<rparr>"
  from Cons.prems have one: "strip_one M (VRef (length pre)) s = (Inr (), ?s1)"
    by (intro strip_one_plain) simp
  have "heap ?s1 = (pre @ [strip_fields M d]) @ ds @ post" by simp
  from Cons.IH[OF this]
  have rest: "strip_all M (map VRef [Suc (length pre)..<Suc (length pre) + length ds]) ?s1
       = (Inr (), s\<lparr>heap := pre @ map (strip_fields M) (d # ds) @ post\<rparr>)"
    by simp
  show ?case
    unfolding length_Cons upt_head using one rest by (simp add: bnd_def)
qed

lemma remap_one_plain:
  assumes "heap s = pre @ d # rest"
    and "remap_one M E tfm shape (VRef (length pre)) s = (Inr x, s')"
  shows "\<exists>t. transform_instance_annotations E d tfm shape
               (keypoint_hflip_indices (inherited M)) = Inr t \<and>
             x = (length pre, crowd_flag t) \<and>
             s' = s\<lparr>heap := pre @ t # rest, trace := trace s @ [Remapped (length pre)]\<rparr>"
  using assms
  by (auto simp: remap_one_def bnd_Inr crowd_flag_def split: if_splits)

lemma remap_all_plain:
  "heap s = pre @ ds @ post \<Longrightarrow>
   remap_all M E tfm shape (map VRef [length pre..<length pre + length ds]) s = (Inr all, s') \<Longrightarrow>
   \<exists>ts. list_all2 (\<lambda>d t. transform_instance_annotations E d tfm shape
                             (keypoint_hflip_indices (inherited M)) = Inr t) ds ts \<and>
        all = zip [length pre..<length pre + length ds] (map crowd_flag ts) \<and>
        s' = s\<lparr>heap := pre @ ts @ post,
               trace := trace s @ map Remapped [length pre..<length pre + length ds]\<rparr>"
proof (induction ds arbitrary: pre s all)
  case Nil
  then show ?case by simp
next
  case (Cons d ds)
  from Cons.prems(2) obtain x s1 xs where
    one: "remap_one M E tfm shape (VRef (length pre)) s = (Inr x, s1)"
    and rest: "remap_all M E tfm shape (map VRef [Suc (length pre)..<Suc (length pre) + length ds]) s1
                 = (Inr xs, s')"
    and all: "all = x # xs"
    unfolding length_Cons upt_head by (auto simp: bnd_Inr)
  from Cons.prems(1) have "heap s = pre @ d # (ds @ post)" by simp
  from remap_one_plain[OF this one] obtain t where
    t: "transform_instance_annotations E d tfm shape (keypoint_hflip_indices (inherited M)) = Inr t"
    and x: "x = (length pre, crowd_flag t)"
    and s1: "s1 = s\<lparr>heap := pre @ t # (ds @ post), trace := trace s @ [Remapped (length pre)]\<rparr>"
    by blast
  from s1 have "heap s1 = (pre @ [t]) @ ds @ post" by simp
  from Cons.IH[OF this, of xs] rest obtain ts where
    ts: "list_all2 (\<lambda>d t. transform_instance_annotations E d tfm shape
                             (keypoint_hflip_indices (inherited M)) = Inr t) ds ts"
    and xs: "xs = zip [Suc (length pre)..<Suc (length pre) + length ds] (map crowd_flag ts)"
    and s': "s' = s1\<lparr>heap := (pre @ [t]) @ ts @ post,
               trace := trace s1 @ map Remapped [Suc (length pre)..<Suc (length pre) + length ds]\<rparr>"
    by auto
  show ?case
    unfolding length_Cons upt_head
    using t ts all x xs s' s1 by (intro exI[of _ "t # ts"]) simp
qed

lemma read_all_valid:
  "\<forall>a \<in> set as. a < length (heap s) \<Longrightarrow> read_all as s = (Inr (map ((!) (heap s)) as), s)"
  by (induction as) (auto simp: bnd_def rd_def ret_def)

lemma kept_rows:
  "map ((!) (pre @ ts @ post))
     (non_crowd (zip [length pre..<length pre + length ts] (map crowd_flag ts)))
   = filter (\<lambda>t. eq_zero (crowd_flag t)) ts"
proof (induction ts arbitrary: pre)
  case Nil
  then show ?case by (simp add: non_crowd_def)
next
  case (Cons t ts)
  from Cons.IH[of "pre @ [t]"]
  have "map ((!) (pre @ t # ts @ post))
     (non_crowd (zip [Suc (length pre)..<Suc (length pre) + length ts] (map crowd_flag ts)))
   = filter (\<lambda>t. eq_zero (crowd_flag t)) ts" by simp
  then show ?case
    unfolding length_Cons upt_head by (simp add: non_crowd_def)
qed

lemma non_crowd_valid:
  "\<forall>a \<in> set (non_crowd (zip [n..<n + k] fs)). a < n + k"
  by (auto simp: non_crowd_def dest!: set_zip_leftD)

lemma process_annotations_none:
  "map_of (heap s ! w) ''annotations'' = None \<Longrightarrow>
     process_annotations M E w shape tfm s = (Inr u, s') \<Longrightarrow> s' = s"
  by (auto simp: process_annotations_def bnd_Inr split: if_splits)

lemma process_annotations_plain:
  assumes h: "heap s = H @ d # ds" and w: "w = length H"
    and an: "map_of d ''annotations'' = Some (VList (map VRef [Suc w..<Suc w + length ds]))"
    and run: "process_annotations M E w shape tfm s = (Inr u, s')"
  shows "\<exists>ts I I'.
     list_all2 (\<lambda>d t. transform_instance_annotations E d tfm shape
                         (keypoint_hflip_indices (inherited M)) = Inr t)
       (map (strip_fields M) ds) ts \<and>
     annotations_to_instances E (filter (\<lambda>t. eq_zero (crowd_flag t)) ts) shape
       (instance_mask_format (inherited M)) = Inr I \<and>
     recompute M E I = Inr I' \<and>
     s' = s\<lparr>heap := H @ AList.update ''instances'' (VInstances (filter_empty_instances E I'))
                          (AList.delete ''annotations'' d) # ts,
            trace := trace s @ map Remapped [Suc w..<Suc w + length ds]
                       @ [Collected (filter (\<lambda>t. eq_zero (crowd_flag t)) ts)]\<rparr>"
proof -
  let ?vs = "map VRef [Suc w..<Suc w + length ds]"
  let ?d0 = "AList.delete ''annotations'' d"
  have hw: "heap s ! w = d" and wl: "w < length (heap s)" using h w by simp_all
  obtain r1 s1 where st0: "strip_all M ?vs s = (r1, s1)" by (cases "strip_all M ?vs s")
  have st: "strip_all M ?vs s = (Inr (), s1)"
  proof (cases r1)
    case (Inl e)
    with st0 process_annotations_unstripped[OF wl, of ?vs M e s1 E shape tfm] hw an run
    show ?thesis by simp
  next
    case (Inr u1)
    with st0 show ?thesis by simp
  qed
  define s2 where "s2 = s1\<lparr>heap := (heap s1)[w := AList.delete ''annotations'' (heap s1 ! w)]\<rparr>"
  from hw an st have "process_annotations M E w shape tfm s =
     bnd (remap_all M E tfm shape ?vs) (\<lambda>all_annos.
     bnd (read_all (non_crowd all_annos)) (\<lambda>annos.
     bnd (emit (Collected annos)) (\<lambda>_.
     bnd (lift (annotations_to_instances E annos shape
                  (instance_mask_format (inherited M)))) (\<lambda>I.
     bnd (lift (recompute M E I)) (\<lambda>I'.
     bnd (rd w) (\<lambda>d2.
     wr w (AList.update ''instances''
             (VInstances (filter_empty_instances E I')) d2))))))) s2"
    unfolding s2_def by (intro process_annotations_stripped[OF wl]) simp_all
  with run have "bnd (remap_all M E tfm shape ?vs) (\<lambda>all_annos.
     bnd (read_all (non_crowd all_annos)) (\<lambda>annos.
     bnd (emit (Collected annos)) (\<lambda>_.
     bnd (lift (annotations_to_instances E annos shape
                  (instance_mask_format (inherited M)))) (\<lambda>I.
     bnd (lift (recompute M E I)) (\<lambda>I'.
     bnd (rd w) (\<lambda>d2.
     wr w (AList.update ''instances''
             (VInstances (filter_empty_instances E I')) d2))))))) s2 = (Inr u, s')"
    by simp
  then obtain all s3 annos s4 I I' where
    rm: "remap_all M E tfm shape ?vs s2 = (Inr all, s3)"
    and ra: "read_all (non_crowd all) s3 = (Inr annos, s4)"
    and ai: "annotations_to_instances E annos shape (instance_mask_format (inherited M)) = Inr I"
    and rc: "recompute M E I = Inr I'"
    and s': "w < length (heap s4)"
      "s' = s4\<lparr>trace := trace s4 @ [Collected annos],
               heap := (heap s4)[w := AList.update ''instances''
                  (VInstances (filter_empty_instances E I')) (heap s4 ! w)]\<rparr>"
    by (auto simp: bnd_Inr split: if_splits)
  have "heap s = (H @ [d]) @ ds @ []" using h by simp
  from strip_all_plain[OF this, of M] st w
  have s1: "s1 = s\<lparr>heap := H @ d # map (strip_fields M) ds\<rparr>" by simp
  with w have s2': "s2 = s\<lparr>heap := H @ ?d0 # map (strip_fields M) ds\<rparr>"
    by (simp add: s2_def)
  then have "heap s2 = (H @ [?d0]) @ map (strip_fields M) ds @ []" by simp
  from remap_all_plain[OF this, of M E tfm shape all s3] rm w obtain ts where
    ts: "list_all2 (\<lambda>d t. transform_instance_annotations E d tfm shape
                         (keypoint_hflip_indices (inherited M)) = Inr t)
            (map (strip_fields M) ds) ts"
    and all: "all = zip [Suc w..<Suc w + length ds] (map crowd_flag ts)"
    and s3: "s3 = s2\<lparr>heap := H @ ?d0 # ts,
               trace := trace s2 @ map Remapped [Suc w..<Suc w + length ds]\<rparr>"
    by auto
  from ts have len: "length ts = length ds" by (auto dest: list_all2_lengthD)
  have valid: "\<forall>a \<in> set (non_crowd all). a < length (heap s3)"
    using non_crowd_valid[of "Suc w" "length ds" "map crowd_flag ts"] all s3 len w by auto
  from read_all_valid[OF valid] ra
  have annos: "annos = map ((!) (heap s3)) (non_crowd all)" and s4: "s4 = s3" by simp_all
  have "map ((!) ((H @ [?d0]) @ ts @ []))
     (non_crowd (zip [length (H @ [?d0])..<length (H @ [?d0]) + length ts] (map crowd_flag ts)))
     = filter (\<lambda>t. eq_zero (crowd_flag t)) ts"
    by (rule kept_rows)
  with annos all s3 len w have kept: "annos = filter (\<lambda>t. eq_zero (crowd_flag t)) ts" by simp
  have "s' = s\<lparr>heap := H @ AList.update ''instances'' (VInstances (filter_empty_instances E I'))
                          ?d0 # ts,
            trace := trace s @ map Remapped [Suc w..<Suc w + length ds] @ [Collected annos]\<rparr>"
    using s' s4 s3 s2' w by simp
  with ts ai rc kept show ?thesis by blast
qed

lemma only_record_shape:
  assumes "only_record K w s1 s2" and "heap s1 = H @ d # rest" and "w = length H"
  shows "heap s2 = H @ (heap s2 ! w) # rest"
proof (rule nth_equalityI)
  show "length (heap s2) = length (H @ heap s2 ! w # rest)"
    using assms by (simp add: only_record_def)
next
  fix i assume "i < length (heap s2)"
  show "heap s2 ! i = (H @ heap s2 ! w # rest) ! i"
  proof (cases "i = w")
    case True
    with assms(3) show ?thesis by simp
  next
    case False
    with assms have "heap s2 ! i = (H @ d # rest) ! i" by (simp add: only_record_def)
    with False assms(3) show ?thesis by (auto simp: nth_append nth_Cons split: nat.splits)
  qed
qed

lemma map_of_relabel:
  "map_of (relabel L n d) k =
     (if k = ''annotations'' then map_option (\<lambda>_. VList (map VRef [L..<L + n])) (map_of d k)
      else map_of d k)"
  by (induction d) (auto simp: relabel_def)

lemma training_plain:
  assumes tr: "is_train M" and pr: "plain_record (heap s) (heap s ! r) as"
    and r: "r < length (heap s)" and lim: "2 \<le> recursion_limit E"
    and run: "call M E r s = (Inr w, s')" and con: "in_place_contract E"
  obtains x s2 d2 s3 s4 p where
    "w = length (heap s)"
    "heap s2 = heap s @ d2 # map ((!) (heap s)) as"
    "trace s2 = trace s @ [Augmented p]"
    "pipeline_for M (source_of M (heap s ! r)) = Inr p"
    "\<forall>k. k \<notin> prepared_keys \<longrightarrow>
        map_of d2 k = map_of (relabel (Suc w) (length as) (heap s ! r)) k"
    "map_of d2 ''dataset_source'' = source_of M (heap s ! r)"
    "process_annotations M E w (fst x) (snd x) s2 = (Inr (), s3)"
    "attach_ann_type M w s3 = (Inr (), s4)"
    "debug_labels M w s4 = (Inr (), s')"
proof -
  let ?N = "length (heap s)"
  let ?d1 = "relabel (Suc ?N) (length as) (heap s ! r)"
  let ?s1 = "s\<lparr>heap := heap s @ ?d1 # map ((!) (heap s)) as\<rparr>"
  from call_training[OF tr run] obtain s1 x s2 where
    d: "deepcopy (recursion_limit E) r s = (Inr w, s1)"
    and p: "prepare M E w s1 = (Inr x, s2)"
    and f: "finish_training M E w (fst x) (snd x) s2 = (Inr w, s')"
    by blast
  from deepcopy_plain[OF pr r lim] d have w: "w = ?N" and s1: "s1 = ?s1" by simp_all
  have h1: "heap s1 = heap s @ ?d1 # map ((!) (heap s)) as" and w1: "heap s1 ! w = ?d1"
    and t1: "trace s1 = trace s"
    using s1 w by simp_all
  from prepare_effect[OF p con] obtain q where
    or: "only_record prepared_keys w s1 s2"
    and ds: "map_of (heap s2 ! w) ''dataset_source'' = source_of M (heap s1 ! w)"
    and t2: "trace s2 = trace s1 @ [Augmented q]"
    and pf: "pipeline_for M (source_of M (heap s1 ! w)) = Inr q"
    by blast
  have src: "source_of M (heap s1 ! w) = source_of M (heap s ! r)"
    using w1 by (simp add: source_of_def map_of_relabel)
  from f obtain s3 s4 where pa: "process_annotations M E w (fst x) (snd x) s2 = (Inr (), s3)"
    and at: "attach_ann_type M w s3 = (Inr (), s4)" and dl: "debug_labels M w s4 = (Inr (), s')"
    by (auto simp: finish_training_def bnd_Inr)
  show thesis
  proof (rule that[of s2 "heap s2 ! w" q x s3 s4])
    show "w = ?N" by (rule w)
    show "heap s2 = heap s @ heap s2 ! w # map ((!) (heap s)) as"
      using only_record_shape[OF or h1 w] .
    show "trace s2 = trace s @ [Augmented q]" using t2 t1 by simp
    show "pipeline_for M (source_of M (heap s ! r)) = Inr q" using pf src by simp
    show "\<forall>k. k \<notin> prepared_keys \<longrightarrow> map_of (heap s2 ! w) k = map_of (relabel (Suc w) (length as) (heap s ! r)) k"
      using or w1 w by (simp add: only_record_def)
    show "map_of (heap s2 ! w) ''dataset_source'' = source_of M (heap s ! r)"
      using ds src by simp
  qed (fact pa at dl)+
qed

lemma crowd_flag_strip [simp]: "crowd_flag (strip_fields M d) = crowd_flag d"
  by (simp add: crowd_flag_def strip_fields_def delete_conv' Let_def)




lemma sorted_set_spec:
  "sorted (sorted_set xs) \<and> distinct (sorted_set xs) \<and> set (sorted_set xs) = set xs"
  by (simp add: sorted_set_def)

lemma plain_record_annotations:
  "plain_record h d as \<Longrightarrow> map_of d ''annotations'' = Some v \<Longrightarrow> v = VList (map VRef as)"
  unfolding plain_record_def by (auto split: option.splits simp del: map_of_eq_Some_iff)

lemma process_annotations_plain_keys:
  assumes h: "heap s = H @ d # ds" and w: "w = length H"
    and an: "case map_of d ''annotations'' of None \<Rightarrow> True
             | Some v \<Rightarrow> v = VList (map VRef [Suc w..<Suc w + length ds])"
    and run: "process_annotations M E w shape tfm s = (Inr u, s')"
  shows "\<exists>d' ds'. heap s' = H @ d' # ds' \<and>
           (\<forall>k. k \<notin> {''annotations'', ''instances''} \<longrightarrow> map_of d' k = map_of d k)"
proof (cases "map_of d ''annotations''")
  case None
  with h w have "map_of (heap s ! w) ''annotations'' = None" by simp
  from process_annotations_none[OF this run] h show ?thesis by auto
next
  case (Some v)
  with an have "map_of d ''annotations'' = Some (VList (map VRef [Suc w..<Suc w + length ds]))"
    by simp
  from process_annotations_plain[OF h w this run] obtain ts I' where
    "heap s' = H @ AList.update ''instances'' (VInstances (filter_empty_instances E I'))
                          (AList.delete ''annotations'' d) # ts"
    by auto
  then show ?thesis
    by (intro exI conjI) (assumption, simp add: update_conv' delete_conv')
qed

lemma training_plain_keys:
  assumes tr: "is_train M" and pr: "plain_record (heap s) (heap s ! r) as"
    and r: "r < length (heap s)" and lim: "2 \<le> recursion_limit E"
    and run: "call M E r s = (Inr w, s')" and con: "in_place_contract E"
  obtains s3 s4 where
    "map_of (heap s3 ! w) ''dataset_source'' = source_of M (heap s ! r)"
    "map_of (heap s3 ! w) ''pos_category_ids'' = map_of (heap s ! r) ''pos_category_ids''"
    "attach_ann_type M w s3 = (Inr (), s4)"
    "debug_labels M w s4 = (Inr (), s')"
proof -
  from tr pr r lim run con obtain x s2 d2 s3 s4 p where
    w: "w = length (heap s)"
    and h2: "heap s2 = heap s @ d2 # map ((!) (heap s)) as"
    and d2: "\<forall>k. k \<notin> prepared_keys \<longrightarrow>
        map_of d2 k = map_of (relabel (Suc w) (length as) (heap s ! r)) k"
    and ds2: "map_of d2 ''dataset_source'' = source_of M (heap s ! r)"
    and pa: "process_annotations M E w (fst x) (snd x) s2 = (Inr (), s3)"
    and at: "attach_ann_type M w s3 = (Inr (), s4)"
    and dl: "debug_labels M w s4 = (Inr (), s')"
    by (rule training_plain)
  have notin: "''annotations'' \<notin> prepared_keys" "''pos_category_ids'' \<notin> prepared_keys"
    by (simp_all add: prepared_keys_def proposal_keys_def)
  have "case map_of (heap s ! r) ''annotations'' of None \<Rightarrow> True
        | Some v \<Rightarrow> v = VList (map VRef as)"
    using plain_record_annotations[OF pr] by (auto split: option.splits)
  with d2 notin(1) have an2: "case map_of d2 ''annotations'' of None \<Rightarrow> True
             | Some v \<Rightarrow> v = VList (map VRef [Suc w..<Suc w + length (map ((!) (heap s)) as)])"
    by (simp add: map_of_relabel split: option.splits)
  from process_annotations_plain_keys[OF h2 w an2 pa] obtain d3 ds3 where
    h3: "heap s3 = heap s @ d3 # ds3"
    and d3: "\<forall>k. k \<notin> {''annotations'', ''instances''} \<longrightarrow> map_of d3 k = map_of d2 k"
    by blast
  from h3 w have w3: "heap s3 ! w = d3" by simp
  show thesis
  proof (rule that[of s3 s4])
    show "map_of (heap s3 ! w) ''dataset_source'' = source_of M (heap s ! r)"
      using w3 d3 ds2 by simp
    show "map_of (heap s3 ! w) ''pos_category_ids'' = map_of (heap s ! r) ''pos_category_ids''"
      using w3 d3 d2 notin(2) by (simp add: map_of_relabel)
  qed (fact at dl)+
qed

section \<open>The labels of the datasets\<close>

text \<open>\<open>dataset_ann\<close> is read in two places only: lines 108 and 168.\<close>

lemma strip_all_labels [simp]: "strip_all (M\<lparr>dataset_ann := l\<rparr>) vs = strip_all M vs"
  by (induction vs) (simp_all add: strip_one_def strip_fields_def cong: val.case_cong)

lemma remap_all_labels [simp]:
  "remap_all (M\<lparr>dataset_ann := l\<rparr>) E tfm shape vs = remap_all M E tfm shape vs"
  by (induction vs) (simp_all add: remap_one_def cong: val.case_cong)

lemma process_annotations_labels [simp]:
  "process_annotations (M\<lparr>dataset_ann := l\<rparr>) E w shape tfm = process_annotations M E w shape tfm"
  by (simp add: process_annotations_def recompute_def cong: option.case_cong val.case_cong)

lemma prepare_labels:
  assumes "prepare M E w s = (Inr x, s2)" and "prepare (M\<lparr>dataset_ann := l\<rparr>) E w s = (Inr x', s2')"
  shows "x' = x \<and> s2' = s2"
proof -
  have eqs: "load (M\<lparr>dataset_ann := l\<rparr>) E w = load M E w"
    "force_debug_source (M\<lparr>dataset_ann := l\<rparr>) w = force_debug_source M w"
    "\<And>ori sem. augment (M\<lparr>dataset_ann := l\<rparr>) E w ori sem = augment M E w ori sem"
    "\<And>shape tfm. proposals (M\<lparr>dataset_ann := l\<rparr>) E w shape tfm = proposals M E w shape tfm"
    by (simp_all add: load_def load_image_def force_debug_source_def augment_def
        select_augmentations_def proposals_def cong: option.case_cong if_cong)
  from assms show ?thesis
    unfolding prepare_alt eqs by (auto simp: bnd_Inr split: if_splits)
qed

lemma instances_independent_of_labels:
  assumes tr: "is_train M" and run: "call M E r s = (Inr w, s')"
    and run2: "call (M\<lparr>dataset_ann := l\<rparr>) E r s = (Inr w2, s2')"
  shows "w2 = w \<and> map_of (heap s2' ! w2) ''instances'' = map_of (heap s' ! w) ''instances''"
proof -
  let ?M = "M\<lparr>dataset_ann := l\<rparr>"
  from call_training[OF tr run] obtain s1 x s2 where
    d: "deepcopy (recursion_limit E) r s = (Inr w, s1)"
    and p: "prepare M E w s1 = (Inr x, s2)"
    and f: "finish_training M E w (fst x) (snd x) s2 = (Inr w, s')"
    by blast
  from tr have "is_train ?M" by simp
  from call_training[OF this run2] obtain t1 y t2 where
    d': "deepcopy (recursion_limit E) r s = (Inr w2, t1)"
    and p': "prepare ?M E w2 t1 = (Inr y, t2)"
    and f': "finish_training ?M E w2 (fst y) (snd y) t2 = (Inr w2, s2')"
    by blast
  from d d' have w: "w2 = w" and t1: "t1 = s1" by simp_all
  from prepare_labels[OF p p'[unfolded w t1]] have y: "y = x" and t2: "t2 = s2" by simp_all
  from f obtain s3 s4 where pa: "process_annotations M E w (fst x) (snd x) s2 = (Inr (), s3)"
    and at: "attach_ann_type M w s3 = (Inr (), s4)" and dl: "debug_labels M w s4 = (Inr (), s')"
    by (auto simp: finish_training_def bnd_Inr)
  from f'[unfolded w y t2] pa obtain t4 where
    at': "attach_ann_type ?M w s3 = (Inr (), t4)" and dl': "debug_labels ?M w t4 = (Inr (), s2')"
    by (auto simp: finish_training_def bnd_Inr)
  from attach_ann_type_effect[OF at] debug_labels_effect[OF dl]
  have "map_of (heap s' ! w) ''instances'' = map_of (heap s3 ! w) ''instances''"
    by (simp add: only_record_def)
  moreover from attach_ann_type_effect[OF at'] debug_labels_effect[OF dl']
  have "map_of (heap s2' ! w) ''instances'' = map_of (heap s3 ! w) ''instances''"
    by (simp add: only_record_def)
  ultimately show ?thesis using w by simp
qed

section \<open>The concrete setting, evaluated\<close>

lemma example_contract: "in_place_contract example_collaborators"
  by (simp add: in_place_contract_def example_collaborators_def)


lemma example_row_filter: "row_filter example_collaborators"
  unfolding row_filter_def
proof
  fix I :: "int instances"
  show "\<exists>js. (\<forall>j\<in>set js. j < length (gt_boxes I)) \<and>
            filter_empty_instances example_collaborators I = select_rows js I"
    by (rule exI[of _ "filter (\<lambda>j. gt_boxes I ! j \<noteq> 0) [0..<length (gt_boxes I)]"])
      (simp add: example_collaborators_def)
qed

lemma example_limit: "2 \<le> recursion_limit example_collaborators"
  by (simp add: example_collaborators_def)

lemma example_plain:
  "plain_record (heap (example_store example_record)) (heap (example_store example_record) ! 0) [1, 2]"
  by code_simp

lemma untagged_plain:
  "plain_record (heap (example_store untagged_record)) (heap (example_store untagged_record) ! 0) [1, 2]"
  by code_simp

lemma example_call:
  "call example_mapper example_collaborators 0 (example_store example_record) =
     (Inr 3,
      \<lparr> heap = [example_record, example_object, example_crowd,
                [(''file_name'', VStr ''a.jpg''), (''dataset_source'', VInt 0),
                 (''image'', VExt 1),
                 (''instances'',
                  VInstances \<lparr>gt_boxes = [5], gt_classes = [7], gt_masks = Some [3]\<rparr>)],
                remapped example_object, remapped example_crowd],
        trace = [Augmented (AugmentationList []), Remapped 4, Remapped 5,
                 Collected [remapped example_object]] \<rparr>)"
  by code_simp


lemma inference_call:
  "call (example_mapper\<lparr>is_train := False\<rparr>) example_collaborators 0
       (example_store untagged_record) =
     (Inr 3,
      \<lparr> heap = [untagged_record, example_object, example_crowd,
                [(''file_name'', VStr ''a.jpg''), (''image'', VExt 1), (''sem_seg'', VExt 1)],
                example_object, example_crowd],
        trace = [Augmented (AugmentationList [])] \<rparr>)"
  by code_simp

lemma labelled_call:
  "call (example_mapper\<lparr>is_train := False\<rparr>) example_collaborators 0
       (example_store labelled_record) =
     (Inr 3,
      \<lparr> heap = [labelled_record, example_object, example_crowd,
                [(''file_name'', VStr ''a.jpg''), (''instances'', VInt 1), (''image'', VExt 1)],
                example_object, example_crowd],
        trace = [Augmented (AugmentationList [])] \<rparr>)"
  by code_simp

lemma debug_call:
  "call (example_mapper\<lparr>is_debug := True\<rparr>) example_collaborators 0
       (example_store untagged_record) =
     (Inr 3,
      \<lparr> heap = [untagged_record, example_object, example_crowd,
                [(''file_name'', VStr ''a.jpg''), (''dataset_source'', VInt 0),
                 (''image'', VExt 1), (''sem_seg'', VExt 1),
                 (''instances'',
                  VInstances \<lparr>gt_boxes = [5], gt_classes = [7], gt_masks = Some [3]\<rparr>),
                 (''pos_category_ids'', VList [VInt 7])],
                remapped example_object, remapped example_crowd],
        trace = [Augmented (AugmentationList []), Remapped 4, Remapped 5,
                 Collected [remapped example_object]] \<rparr>)"
  by code_simp

lemma debug_labelled_call:
  "call (example_mapper\<lparr>is_debug := True, with_ann_type := True\<rparr>) example_collaborators 0
       (example_store example_record) =
     (Inr 3,
      \<lparr> heap = [example_record, example_object, example_crowd,
                [(''file_name'', VStr ''a.jpg''), (''dataset_source'', VInt 0),
                 (''image'', VExt 1),
                 (''instances'',
                  VInstances \<lparr>gt_boxes = [5], gt_classes = [7], gt_masks = Some [3]\<rparr>),
                 (''pos_category_ids'', VList [VInt 7]),
                 (''ann_type'', VStr ''image'')],
                remapped example_object, remapped example_crowd],
        trace = [Augmented (AugmentationList []), Remapped 4, Remapped 5,
                 Collected [remapped example_object]] \<rparr>)"
  by code_simp

lemma typed_call:
  "call (example_mapper\<lparr>with_ann_type := True\<rparr>) example_collaborators 0
       (example_store example_record) =
     (Inr 3,
      \<lparr> heap = [example_record, example_object, example_crowd,
                [(''file_name'', VStr ''a.jpg''), (''dataset_source'', VInt 0),
                 (''image'', VExt 1),
                 (''instances'',
                  VInstances \<lparr>gt_boxes = [5], gt_classes = [7], gt_masks = Some [3]\<rparr>),
                 (''pos_category_ids'', VList []),
                 (''ann_type'', VStr ''image'')],
                remapped example_object, remapped example_crowd],
        trace = [Augmented (AugmentationList []), Remapped 4, Remapped 5,
                 Collected [remapped example_object]] \<rparr>)"
  by code_simp

lemma recompute_call:
  "call (example_mapper\<lparr>inherited := example_inherited\<lparr>recompute_boxes := True\<rparr>\<rparr>)
       example_collaborators 0 (example_store example_record) =
     (Inr 3,
      \<lparr> heap = [example_record, example_object, example_crowd,
                [(''file_name'', VStr ''a.jpg''), (''dataset_source'', VInt 0),
                 (''image'', VExt 1),
                 (''instances'',
                  VInstances \<lparr>gt_boxes = [103], gt_classes = [7], gt_masks = Some [3]\<rparr>)],
                remapped example_object, remapped example_crowd],
        trace = [Augmented (AugmentationList []), Remapped 4, Remapped 5,
                 Collected [remapped example_object]] \<rparr>)"
  by code_simp

lemma archive_call:
  "deepcopy (recursion_limit example_collaborators) 0 (example_store archive_record) =
     (Inr 3, \<lparr> heap = [archive_record, example_object, example_crowd, archive_record],
               trace = [] \<rparr>)"
  by code_simp

lemma untagged_copy:
  "deepcopy (recursion_limit example_collaborators) 0 (example_store untagged_record) =
     (Inr 3, \<lparr> heap = [untagged_record, example_object, example_crowd,
                       [(''file_name'', VStr ''a.jpg''), (''sem_seg_file_name'', VStr ''a.png''),
                        (''annotations'', VList [VRef 4, VRef 5])],
                       example_object, example_crowd],
               trace = [] \<rparr>)"
  by code_simp

section \<open>The properties\<close>

text \<open>
  In the statements \<open>s\<close> is the state before the call, \<open>r\<close> the address of the caller's
  record, \<open>s'\<close> the state after the call and \<open>w\<close> the address of the record returned, so
  that \<open>heap s ! r\<close> is the input record and \<open>heap s' ! w\<close> the output record.
\<close>

subsection \<open>Which pipeline is applied\<close>



subsection \<open>Crowd annotations\<close>



subsection \<open>Inference\<close>

text \<open>
  C3, as stated: the output of an inference call has no \<^verbatim>\<open>instances\<close> entry. It
  has one when the input record has one: the mapper hands on every entry it does not
  know.
\<close>

theorem inference_output_counterexample:
  "\<not> is_train (example_mapper\<lparr>is_train := False\<rparr>) \<and>
   fst (call (example_mapper\<lparr>is_train := False\<rparr>) example_collaborators 0
          (example_store labelled_record)) = Inr 3 \<and>
   map_of (heap (snd (call (example_mapper\<lparr>is_train := False\<rparr>) example_collaborators 0
          (example_store labelled_record))) ! 3) ''instances'' = Some (VInt 1)"
  by (simp only: labelled_call fst_conv snd_conv) simp

text \<open>
  C3, amended. The output of an inference call has no \<^verbatim>\<open>annotations\<close> entry and no
  \<^verbatim>\<open>sem_seg_file_name\<close> entry, whatever the input record held, and it has an
  \<^verbatim>\<open>instances\<close> entry only if the input record had one: the call adds none. Nothing
  is done to the annotations: the pipeline is the only collaborator of the trace.
\<close>

theorem inference_output:
  assumes "\<not> is_train M" and "call M E r s = (Inr w, s')" and "in_place_contract E"
  shows "map_of (heap s' ! w) ''annotations'' = None \<and>
         map_of (heap s' ! w) ''sem_seg_file_name'' = None \<and>
         (map_of (heap s' ! w) ''instances'' = None \<longleftrightarrow> map_of (heap s ! r) ''instances'' = None) \<and>
         (\<exists>p. trace s' = trace s @ [Augmented p])"
proof -
  from assms(2) obtain s1 x s2 where d: "deepcopy (recursion_limit E) r s = (Inr w, s1)"
    and p: "prepare M E w s1 = (Inr x, s2)"
    and f: "finish_inference w s2 = (Inr w, s')"
    using call_inference[OF assms(1,2)] by blast
  note dc = deepcopy_Inr[OF d]
  from prepare_effect[OF p assms(3)] obtain q where
    or: "only_record prepared_keys w s1 s2" and tr: "trace s2 = trace s1 @ [Augmented q]"
    by blast
  note fi = finish_inference_effect[OF f]
  have "''instances'' \<notin> prepared_keys"
    by (simp add: prepared_keys_def proposal_keys_def)
  with or fi have "map_of (heap s' ! w) ''instances'' = map_of (heap s1 ! w) ''instances''"
    by (simp add: only_record_def)
  moreover have "map_of (heap s1 ! w) ''instances'' = None \<longleftrightarrow> map_of (heap s ! r) ''instances'' = None"
    using dc(6)[of "''instances''"] by (auto split: option.splits)
  ultimately show ?thesis using fi tr dc(3) by simp
qed

theorem inference_output_witness:
  "\<not> is_train (example_mapper\<lparr>is_train := False\<rparr>) \<and>
   map_of untagged_record ''annotations'' = Some (VList [VRef 1, VRef 2]) \<and>
   map_of untagged_record ''sem_seg_file_name'' = Some (VStr ''a.png'') \<and>
   fst (call (example_mapper\<lparr>is_train := False\<rparr>) example_collaborators 0
       (example_store untagged_record)) = Inr 3 \<and>
   map fst (heap (snd (call (example_mapper\<lparr>is_train := False\<rparr>) example_collaborators 0
       (example_store untagged_record))) ! 3) = [''file_name'', ''image'', ''sem_seg''] \<and>
   trace (snd (call (example_mapper\<lparr>is_train := False\<rparr>) example_collaborators 0
       (example_store untagged_record))) = [Augmented (AugmentationList [])]"
proof -
  have eval: ?thesis
    by (simp only: inference_call fst_conv snd_conv) (simp add: untagged_record_def)
  have "\<not> is_train (example_mapper\<lparr>is_train := False\<rparr>)" by simp
  from inference_output [OF this inference_call example_contract]
  show ?thesis by - (rule eval)
qed

subsection \<open>Construction\<close>

text \<open>
  C4. Construction with \<^verbatim>\<open>use_tar_dataset\<close> set raises
  \<^verbatim>\<open>NotImplementedError\<close> whatever the other arguments and the base class do, so
  there is no mapper that could produce a sample. With \<^verbatim>\<open>use_tar_dataset\<close> not
  set this test is passed: construction raises only what the constructor of the base
  class raises, and otherwise yields a mapper, on which \<^verbatim>\<open>use_tar_dataset\<close> is
  false.
\<close>

theorem init_use_tar_dataset:
  "(arg_use_tar_dataset a \<longrightarrow> init E a = Inl NotImplementedError \<and> (\<forall>M. init E a \<noteq> Inr M)) \<and>
   (\<not> arg_use_tar_dataset a \<longrightarrow>
      (case dataset_mapper_init E (arg_is_train a) (arg_kwargs a) of
         Inl e \<Rightarrow> init E a = Inl e
       | Inr b \<Rightarrow> \<exists>M. init E a = Inr M \<and> inherited M = b \<and> \<not> use_tar_dataset M))"
  by (simp add: init_def split: sum.splits)

theorem init_use_tar_dataset_witness:
  "init example_collaborators (example_args\<lparr>arg_use_tar_dataset := True\<rparr>)
     = Inl NotImplementedError
   \<and> init example_collaborators example_args = Inr example_mapper
   \<and> \<not> use_tar_dataset example_mapper"
  using init_use_tar_dataset [of "example_args\<lparr>arg_use_tar_dataset := True\<rparr>" example_collaborators]
    init_use_tar_dataset [of example_args example_collaborators]
  by (simp add: example_args_def example_collaborators_def example_mapper_def init_def)

subsection \<open>Image-level labels\<close>

text \<open>
  C5, as stated: in training with \<^verbatim>\<open>with_ann_type\<close>, the
  \<^verbatim>\<open>pos_category_ids\<close> of the output is that of the input, or the empty list. With
  \<^verbatim>\<open>is_debug\<close> set as well it is not: the record below has no
  \<^verbatim>\<open>pos_category_ids\<close>, and the output has the classes of its instances.
\<close>

theorem annotation_type_labels_counterexample:
  "is_train (example_mapper\<lparr>is_debug := True, with_ann_type := True\<rparr>) \<and>
   with_ann_type (example_mapper\<lparr>is_debug := True, with_ann_type := True\<rparr>) \<and>
   map_of example_record ''dataset_source'' = Some (VInt 0) \<and>
   map_of example_record ''pos_category_ids'' = None \<and>
   fst (call (example_mapper\<lparr>is_debug := True, with_ann_type := True\<rparr>)
          example_collaborators 0 (example_store example_record)) = Inr 3 \<and>
   map_of (heap (snd (call (example_mapper\<lparr>is_debug := True, with_ann_type := True\<rparr>)
          example_collaborators 0 (example_store example_record))) ! 3) ''pos_category_ids''
     = Some (VList [VInt 7]) \<and>
   VList [VInt 7] \<noteq> (VList [] :: int val)"
  by (simp only: debug_labelled_call fst_conv snd_conv)
    (simp add: example_mapper_def example_record_def)

text \<open>
  C5, amended. In training with \<^verbatim>\<open>with_ann_type\<close> and without
  \<^verbatim>\<open>is_debug\<close>, on a record of the usual shape, a call that returns gives an output
  whose \<^verbatim>\<open>pos_category_ids\<close> is that of the input record, or the empty list if it
  had none, and whose \<^verbatim>\<open>ann_type\<close> is \<^verbatim>\<open>dataset_ann[dataset_source]\<close> for
  the \<^verbatim>\<open>dataset_source\<close> of the input record. The instance collection does not
  depend on the labels: a call of the mapper with any other \<^verbatim>\<open>dataset_ann\<close> that
  returns gives the same \<^verbatim>\<open>instances\<close>.
\<close>

theorem annotation_type_labels:
  assumes tr: "is_train M" and wa: "with_ann_type M" and nd: "\<not> is_debug M"
    and pr: "plain_record (heap s) (heap s ! r) as"
    and r: "r < length (heap s)" and lim: "2 \<le> recursion_limit E"
    and con: "in_place_contract E" and run: "call M E r s = (Inr w, s')"
  shows "map_of (heap s' ! w) ''pos_category_ids''
           = Some (case map_of (heap s ! r) ''pos_category_ids'' of
                     None \<Rightarrow> VList [] | Some v \<Rightarrow> v) \<and>
         (\<exists>ds a. map_of (heap s ! r) ''dataset_source'' = Some ds \<and>
                 py_index (dataset_ann M) ds = Inr a \<and>
                 map_of (heap s' ! w) ''ann_type'' = Some (VStr a)) \<and>
         (\<forall>l w2 s2. call (M\<lparr>dataset_ann := l\<rparr>) E r s = (Inr w2, s2) \<longrightarrow>
            w2 = w \<and> map_of (heap s2 ! w2) ''instances'' = map_of (heap s' ! w) ''instances'')"
proof -
  from tr pr r lim run con obtain s3 s4 where
    ds3: "map_of (heap s3 ! w) ''dataset_source'' = source_of M (heap s ! r)"
    and pos3: "map_of (heap s3 ! w) ''pos_category_ids'' = map_of (heap s ! r) ''pos_category_ids''"
    and at: "attach_ann_type M w s3 = (Inr (), s4)"
    and dl: "debug_labels M w s4 = (Inr (), s')"
    by (rule training_plain_keys)
  from debug_labels_effect[OF dl] nd have s': "s' = s4" by simp
  from attach_ann_type_effect[OF at] wa s' pos3 ds3 nd
  have "map_of (heap s' ! w) ''pos_category_ids''
           = Some (case map_of (heap s ! r) ''pos_category_ids'' of
                     None \<Rightarrow> VList [] | Some v \<Rightarrow> v)"
    and "\<exists>ds a. map_of (heap s ! r) ''dataset_source'' = Some ds \<and>
                 py_index (dataset_ann M) ds = Inr a \<and>
                 map_of (heap s' ! w) ''ann_type'' = Some (VStr a)"
    by (auto simp: source_of_def)
  moreover have "\<forall>l w2 s2. call (M\<lparr>dataset_ann := l\<rparr>) E r s = (Inr w2, s2) \<longrightarrow>
            w2 = w \<and> map_of (heap s2 ! w2) ''instances'' = map_of (heap s' ! w) ''instances''"
    using instances_independent_of_labels[OF tr run] by blast
  ultimately show ?thesis by blast
qed

theorem annotation_type_labels_witness:
  "is_train (example_mapper\<lparr>with_ann_type := True\<rparr>) \<and>
   with_ann_type (example_mapper\<lparr>with_ann_type := True\<rparr>) \<and>
   \<not> is_debug (example_mapper\<lparr>with_ann_type := True\<rparr>) \<and>
   map_of example_record ''pos_category_ids'' = None \<and>
   fst (call (example_mapper\<lparr>with_ann_type := True\<rparr>)
          example_collaborators 0 (example_store example_record)) = Inr 3 \<and>
   map_of (heap (snd (call (example_mapper\<lparr>with_ann_type := True\<rparr>)
          example_collaborators 0 (example_store example_record))) ! 3) ''pos_category_ids''
     = Some (VList []) \<and>
   map_of (heap (snd (call (example_mapper\<lparr>with_ann_type := True\<rparr>)
          example_collaborators 0 (example_store example_record))) ! 3) ''ann_type''
     = Some (VStr ''image'')"
proof -
  let ?M = "example_mapper\<lparr>with_ann_type := True\<rparr>"
  have M: "is_train ?M" "with_ann_type ?M" "\<not> is_debug ?M" by (simp_all add: example_mapper_def)
  have r: "0 < length (heap (example_store example_record))" by (simp add: example_store_def)
  have eval: ?thesis
    using M by (simp only: typed_call fst_conv snd_conv) (simp add: example_record_def)
  from annotation_type_labels [OF M example_plain r example_limit example_contract typed_call]
  show ?thesis by - (rule eval)
qed

subsection \<open>Debugging\<close>

text \<open>
  C6. With \<^verbatim>\<open>is_debug\<close>, on a record of the usual shape, the output of a call that
  returns has \<^verbatim>\<open>dataset_source\<close> 0, and in training, if the input record had no
  \<^verbatim>\<open>pos_category_ids\<close> or an empty one (which is then also what the working record
  has once the annotations are processed), the \<^verbatim>\<open>pos_category_ids\<close> of the output
  is the list of the classes of its instance collection, sorted and without repetition.
\<close>

theorem debug_source_and_labels:
  assumes dbg: "is_debug M" and pr: "plain_record (heap s) (heap s ! r) as"
    and r: "r < length (heap s)" and lim: "2 \<le> recursion_limit E"
    and con: "in_place_contract E" and run: "call M E r s = (Inr w, s')"
  shows "map_of (heap s' ! w) ''dataset_source'' = Some (VInt 0) \<and>
         (is_train M \<longrightarrow>
            map_of (heap s ! r) ''pos_category_ids'' = None \<or>
            map_of (heap s ! r) ''pos_category_ids'' = Some (VList []) \<longrightarrow>
            (\<exists>I. map_of (heap s' ! w) ''instances'' = Some (VInstances I) \<and>
                 map_of (heap s' ! w) ''pos_category_ids''
                   = Some (VList (map VInt (sorted_set (gt_classes I)))) \<and>
                 sorted (sorted_set (gt_classes I)) \<and> distinct (sorted_set (gt_classes I)) \<and>
                 set (sorted_set (gt_classes I)) = set (gt_classes I)))"
proof (cases "is_train M")
  case False
  from call_inference[OF False run] obtain s1 x s2 where
    p: "prepare M E w s1 = (Inr x, s2)" and f: "finish_inference w s2 = (Inr w, s')"
    by blast
  from prepare_effect[OF p con] dbg
  have "map_of (heap s2 ! w) ''dataset_source'' = Some (VInt 0)" by (simp add: source_of_def)
  with finish_inference_effect[OF f] False show ?thesis by (simp add: only_record_def)
next
  case True
  from True pr r lim run con obtain s3 s4 where
    ds3: "map_of (heap s3 ! w) ''dataset_source'' = source_of M (heap s ! r)"
    and pos3: "map_of (heap s3 ! w) ''pos_category_ids'' = map_of (heap s ! r) ''pos_category_ids''"
    and at: "attach_ann_type M w s3 = (Inr (), s4)"
    and dl: "debug_labels M w s4 = (Inr (), s')"
    by (rule training_plain_keys)
  note a = attach_ann_type_effect[OF at] and d = debug_labels_effect[OF dl]
  from a d ds3 dbg have src: "map_of (heap s' ! w) ''dataset_source'' = Some (VInt 0)"
    by (simp add: only_record_def source_of_def)
  have labels: "\<exists>I. map_of (heap s' ! w) ''instances'' = Some (VInstances I) \<and>
                 map_of (heap s' ! w) ''pos_category_ids''
                   = Some (VList (map VInt (sorted_set (gt_classes I))))"
    if "map_of (heap s ! r) ''pos_category_ids'' = None \<or>
        map_of (heap s ! r) ''pos_category_ids'' = Some (VList [])"
  proof -
    from that pos3 a have "map_of (heap s4 ! w) ''pos_category_ids'' = None \<or>
        map_of (heap s4 ! w) ''pos_category_ids'' = Some (VList [])"
      by (cases "with_ann_type M") auto
    with d dbg obtain I where "map_of (heap s4 ! w) ''instances'' = Some (VInstances I)"
      and "map_of (heap s' ! w) ''pos_category_ids''
                   = Some (VList (map VInt (sorted_set (gt_classes I))))"
      by auto
    moreover from d have "map_of (heap s' ! w) ''instances'' = map_of (heap s4 ! w) ''instances''"
      by (simp add: only_record_def)
    ultimately show ?thesis by auto
  qed
  from src labels show ?thesis using sorted_set_spec by blast
qed

theorem debug_source_and_labels_witness:
  "is_debug (example_mapper\<lparr>is_debug := True\<rparr>) \<and>
   is_train (example_mapper\<lparr>is_debug := True\<rparr>) \<and>
   map_of untagged_record ''dataset_source'' = None \<and>
   map_of untagged_record ''pos_category_ids'' = None \<and>
   fst (call (example_mapper\<lparr>is_debug := True\<rparr>) example_collaborators 0
          (example_store untagged_record)) = Inr 3 \<and>
   map_of (heap (snd (call (example_mapper\<lparr>is_debug := True\<rparr>) example_collaborators 0
          (example_store untagged_record))) ! 3) ''dataset_source'' = Some (VInt 0) \<and>
   map_of (heap (snd (call (example_mapper\<lparr>is_debug := True\<rparr>) example_collaborators 0
          (example_store untagged_record))) ! 3) ''pos_category_ids'' = Some (VList [VInt 7])"
proof -
  let ?M = "example_mapper\<lparr>is_debug := True\<rparr>"
  have M: "is_debug ?M" "is_train ?M" by (simp_all add: example_mapper_def)
  have r: "0 < length (heap (example_store untagged_record))" by (simp add: example_store_def)
  have eval: ?thesis
    using M by (simp only: debug_call fst_conv snd_conv) (simp add: untagged_record_def)
  from debug_source_and_labels [OF M(1) untagged_plain r example_limit example_contract debug_call]
  show ?thesis by - (rule eval)
qed

subsection \<open>The record of the caller\<close>

text \<open>
  C7. Whatever the outcome of a call, every object the store held before it (the caller's
  record, its annotations, anything else) is afterwards what it was before; the store has
  only grown, and the record returned is one of the new objects: all writes of the call
  went to the copy and to what the copy refers to.
\<close>

theorem input_record_unchanged:
  assumes "in_place_contract E" and "call M E r s = (res, s')"
  shows "(\<forall>a<length (heap s). heap s' ! a = heap s ! a) \<and>
         length (heap s) \<le> length (heap s') \<and>
         (\<forall>w. res = Inr w \<longrightarrow> length (heap s) \<le> w \<and> w < length (heap s'))"
  using call_frame [OF assms(2,1)] by blast

theorem input_record_unchanged_witness:
  "in_place_contract example_collaborators \<and>
   fst (call example_mapper example_collaborators 0 (example_store example_record)) = Inr 3 \<and>
   take 3 (heap (snd (call example_mapper example_collaborators 0
       (example_store example_record)))) = heap (example_store example_record) \<and>
   heap (snd (call example_mapper example_collaborators 0
       (example_store example_record))) ! 4 = remapped example_object"
proof -
  have eval: ?thesis
    using example_contract
    by (simp only: example_call fst_conv snd_conv) (simp add: example_store_def)
  from input_record_unchanged [OF example_contract example_call]
  show ?thesis by - (rule eval)
qed

subsection \<open>Boxes recomputed from masks\<close>

text \<open>
  C8. In training with \<^verbatim>\<open>recompute_boxes\<close>, on a record with
  \<^verbatim>\<open>annotations\<close>, the instance collection of the output of a call that returns
  has masks, as many boxes as masks, and the box of each instance is the bounding box of
  its mask: the boxes are overwritten before the empty instances are filtered, and the
  filter keeps box and mask of an instance together.
\<close>

theorem recomputed_boxes:
  assumes "is_train M" and "recompute_boxes (inherited M)"
    and "map_of (heap s ! r) ''annotations'' = Some v"
    and "call M E r s = (Inr w, s')" and "in_place_contract E" and "row_filter E"
  shows "\<exists>I masks. map_of (heap s' ! w) ''instances'' = Some (VInstances I) \<and>
           gt_masks I = Some masks \<and> length (gt_boxes I) = length masks \<and>
           (\<forall>i < length masks. gt_boxes I ! i = mask_bounding_box E (masks ! i))"
proof -
  from assms(4) obtain s1 x s2 where d: "deepcopy (recursion_limit E) r s = (Inr w, s1)"
    and p: "prepare M E w s1 = (Inr x, s2)"
    and f: "finish_training M E w (fst x) (snd x) s2 = (Inr w, s')"
    using call_training[OF assms(1,4)] by blast
  from prepare_effect[OF p assms(5)] have or: "only_record prepared_keys w s1 s2" by simp
  from annotations_kept[OF d or assms(3)] obtain v' where
    "map_of (heap s2 ! w) ''annotations'' = Some v'" by blast
  from finish_training_instances[OF f this] obtain I I' where
    rc: "recompute M E I = Inr I'"
    and out: "map_of (heap s' ! w) ''instances'' = Some (VInstances (filter_empty_instances E I'))"
    by blast
  from rc assms(2) obtain m where m: "gt_masks I = Some m"
    and I': "I' = I\<lparr>gt_boxes := map (mask_bounding_box E) m\<rparr>"
    by (auto simp: recompute_def get_bounding_boxes_def split: option.splits)
  from assms(6) obtain js where js: "\<forall>j \<in> set js. j < length (gt_boxes I')"
    and F: "filter_empty_instances E I' = select_rows js I'"
    unfolding row_filter_def by blast
  let ?out = "filter_empty_instances E I'" and ?masks = "map ((!) m) js"
  have "gt_masks ?out = Some ?masks" using F I' m by (simp add: select_rows_def)
  moreover have "gt_boxes ?out = map (mask_bounding_box E) ?masks"
    using F I' js by (simp add: select_rows_def)
  ultimately show ?thesis using out by auto
qed

theorem recomputed_boxes_witness:
  "recompute_boxes (example_inherited\<lparr>recompute_boxes := True\<rparr>) \<and>
   row_filter example_collaborators \<and>
   mask_bounding_box example_collaborators 3 = 103 \<and>
   fst (call (example_mapper\<lparr>inherited := example_inherited\<lparr>recompute_boxes := True\<rparr>\<rparr>)
       example_collaborators 0 (example_store example_record)) = Inr 3 \<and>
   map_of (heap (snd (call
       (example_mapper\<lparr>inherited := example_inherited\<lparr>recompute_boxes := True\<rparr>\<rparr>)
       example_collaborators 0 (example_store example_record))) ! 3) ''instances''
     = Some (VInstances \<lparr>gt_boxes = [103], gt_classes = [7], gt_masks = Some [3]\<rparr>)"
proof -
  let ?M = "example_mapper\<lparr>inherited := example_inherited\<lparr>recompute_boxes := True\<rparr>\<rparr>"
  have M: "is_train ?M" "recompute_boxes (inherited ?M)" by (simp_all add: example_mapper_def)
  have an: "map_of (heap (example_store example_record) ! 0) ''annotations''
      = Some (VList [VRef 1, VRef 2])"
    by (simp add: example_store_def example_record_def)
  have eval: ?thesis
    using example_row_filter
    by (simp only: recompute_call fst_conv snd_conv) (simp add: example_collaborators_def)
  from recomputed_boxes [OF M an recompute_call example_contract example_row_filter]
  show ?thesis by - (rule eval)
qed

subsection \<open>Records without a file name\<close>

text \<open>
  C9. A call on a record without \<^verbatim>\<open>file_name\<close> never returns a sample: once the
  record is copied, it raises \<^verbatim>\<open>AttributeError\<close>, for \<^verbatim>\<open>self.tar_dataset\<close>,
  before anything else is done (the state is that after the copy).
\<close>

theorem call_without_file_name:
  assumes "map_of (heap s ! r) ''file_name'' = None"
  shows "(\<exists>e. fst (call M E r s) = Inl e) \<and>
         (\<forall>w s1. deepcopy (recursion_limit E) r s = (Inr w, s1) \<longrightarrow>
            call M E r s = (Inl AttributeError, s1))"
proof -
  obtain res1 s1 where d: "deepcopy (recursion_limit E) r s = (res1, s1)" by force
  show ?thesis
  proof (cases res1)
    case (Inl e)
    with d show ?thesis by (simp add: call_alt bnd_def)
  next
    case (Inr w)
    note dc = deepcopy_Inr[OF d[unfolded Inr]]
    from dc(6)[of "''file_name''"] assms
    have "map_of (heap s1 ! w) ''file_name'' = None" by simp
    moreover have "w < length (heap s1)" using dc(1,4) by simp
    ultimately have "prepare M E w s1 = (Inl AttributeError, s1)"
      by (rule load_without_file_name[rotated])
    with d Inr show ?thesis by (simp add: call_alt bnd_def)
  qed
qed

theorem call_without_file_name_witness:
  "map_of (heap (example_store archive_record) ! 0) ''file_name'' = None \<and>
   map_of (heap (example_store archive_record) ! 0) ''tar_index'' = Some (VInt 5) \<and>
   fst (call example_mapper example_collaborators 0 (example_store archive_record))
     = Inl AttributeError"
proof -
  have none: "map_of (heap (example_store archive_record) ! 0) ''file_name'' = None"
    by (simp add: example_store_def archive_record_def)
  have "fst (call example_mapper example_collaborators 0 (example_store archive_record))
     = Inl AttributeError"
    using call_without_file_name [OF none, of example_mapper example_collaborators] archive_call
    by simp
  then show ?thesis by (simp add: example_store_def archive_record_def)
qed

subsection \<open>Records without a dataset source\<close>

text \<open>
  C10. A mapper constructed with \<^verbatim>\<open>use_diff_bs_size\<close> for training and without
  \<^verbatim>\<open>is_debug\<close> never returns a sample for a record without
  \<^verbatim>\<open>dataset_source\<close>; when the image and the mask are loaded, the exception is the
  \<^verbatim>\<open>KeyError\<close> of the selection of the pipeline, raised in the state the loading
  left. With \<^verbatim>\<open>is_debug\<close> the same record goes through, as the last line of the
  example shows.
\<close>

theorem call_without_dataset_source:
  assumes "init E a = Inr M" and "arg_use_diff_bs_size a" and "arg_is_train a"
    and "\<not> arg_is_debug a" and "in_place_contract E"
    and "map_of (heap s ! r) ''dataset_source'' = None"
  shows "(\<exists>e. fst (call M E r s) = Inl e) \<and>
         (\<forall>w s1 l s2. deepcopy (recursion_limit E) r s = (Inr w, s1) \<longrightarrow>
            load M E w s1 = (Inr l, s2) \<longrightarrow> call M E r s = (Inl KeyError, s2))"
proof -
  from assms(1-4) obtain augs where M: "\<not> is_debug M" "use_diff_bs_size M" "is_train M"
    "dataset_augs M = Some augs"
    by (auto simp: init_def split: if_splits sum.splits)
  obtain res1 s1 where d: "deepcopy (recursion_limit E) r s = (res1, s1)" by force
  show ?thesis
  proof (cases res1)
    case (Inl e)
    with d show ?thesis by (simp add: call_alt bnd_def)
  next
    case (Inr w)
    note dc = deepcopy_Inr[OF d[unfolded Inr]]
    from dc(6)[of "''dataset_source''"] assms(6)
    have none1: "map_of (heap s1 ! w) ''dataset_source'' = None" by simp
    obtain res2 s2 where l: "load M E w s1 = (res2, s2)" by force
    show ?thesis
    proof (cases res2)
      case (Inl e)
      with l have "prepare M E w s1 = (Inl e, s2)" by (simp add: prepare_alt bnd_def)
      with d Inr Inl l show ?thesis by (simp add: call_alt bnd_def)
    next
      case inr: (Inr x)
      from load_effect[OF l assms(5)] none1
      have "map_of (heap s2 ! w) ''dataset_source'' = None" by (simp add: only_record_def)
      from prepare_without_source[OF l[unfolded inr] M(1-4) this]
      have "prepare M E w s1 = (Inl KeyError, s2)" .
      with d Inr inr l show ?thesis by (simp add: call_alt bnd_def)
    qed
  qed
qed

theorem call_without_dataset_source_witness:
  "init example_collaborators
       (example_args\<lparr>arg_use_diff_bs_size := True, arg_dataset_augs := [[1], [2]]\<rparr>)
     = Inr (example_mapper\<lparr>use_diff_bs_size := True,
              dataset_augs := Some [AugmentationList [1], AugmentationList [2]]\<rparr>) \<and>
   map_of (heap (example_store untagged_record) ! 0) ''dataset_source'' = None \<and>
   fst (call (example_mapper\<lparr>use_diff_bs_size := True,
              dataset_augs := Some [AugmentationList [1], AugmentationList [2]]\<rparr>)
          example_collaborators 0 (example_store untagged_record)) = Inl KeyError \<and>
   fst (call (example_mapper\<lparr>use_diff_bs_size := True,
              dataset_augs := Some [AugmentationList [1], AugmentationList [2]],
              is_debug := True\<rparr>)
          example_collaborators 0 (example_store untagged_record)) = Inr 3"
proof -
  let ?a = "example_args\<lparr>arg_use_diff_bs_size := True, arg_dataset_augs := [[1], [2]]\<rparr>"
  let ?M = "example_mapper\<lparr>use_diff_bs_size := True,
              dataset_augs := Some [AugmentationList [1], AugmentationList [2]]\<rparr>"
  have i: "init example_collaborators ?a = Inr ?M"
    by (simp add: init_def example_args_def example_mapper_def example_collaborators_def)
  have a: "arg_use_diff_bs_size ?a" "arg_is_train ?a" "\<not> arg_is_debug ?a"
    by (simp_all add: example_args_def)
  have none: "map_of (heap (example_store untagged_record) ! 0) ''dataset_source'' = None"
    by (simp add: example_store_def untagged_record_def)
  have l: "load ?M example_collaborators 3
             \<lparr> heap = [untagged_record, example_object, example_crowd,
                       [(''file_name'', VStr ''a.jpg''), (''sem_seg_file_name'', VStr ''a.png''),
                        (''annotations'', VList [VRef 4, VRef 5])],
                       example_object, example_crowd],
               trace = [] \<rparr>
           = (Inr (1, Some 1),
              \<lparr> heap = [untagged_record, example_object, example_crowd,
                       [(''file_name'', VStr ''a.jpg''), (''annotations'', VList [VRef 4, VRef 5])],
                       example_object, example_crowd],
                trace = [] \<rparr>)"
    by code_simp
  have d: "fst (call (?M\<lparr>is_debug := True\<rparr>) example_collaborators 0
             (example_store untagged_record)) = Inr 3"
    by code_simp
  from call_without_dataset_source [OF i a example_contract none] untagged_copy l
  have "fst (call ?M example_collaborators 0 (example_store untagged_record)) = Inl KeyError"
    by simp
  with i none d show ?thesis by simp
qed

end
